theory Spec2Isabelle
  imports
    Main
    "HOL-Library.AList"
    "HOL-Library.Char_ord"
    "HOL-Library.List_Lexorder"
    "HOL-Library.Product_Lexorder"
    "HOL-Library.Multiset"
    "HOL-Library.Sublist"
begin

section \<open>Python string operations used by the sources\<close>

text \<open>
  Python strings are modelled as \<^typ>\<open>string\<close>: a character is a Unicode code point
  below 256, and the order of \<^typ>\<open>char\<close> is the order of code points. Where the class
  of a character matters (lower-casing, white space, word characters) the definitions
  follow Python on all of these code points.
\<close>

definition startswith :: "string \<Rightarrow> string \<Rightarrow> bool" where
  "startswith s p = (take (length p) s = p)"

definition endswith :: "string \<Rightarrow> string \<Rightarrow> bool" where
  "endswith s p = (length p \<le> length s \<and> drop (length s - length p) s = p)"

text \<open>\<open>s.split(c)\<close> with an explicit separator: the result is never empty.\<close>

fun split :: "char \<Rightarrow> string \<Rightarrow> string list" where
  "split c [] = [[]]"
| "split c (x # xs) =
     (if x = c then [] # split c xs
      else (case split c xs of [] \<Rightarrow> [[x]] | w # ws \<Rightarrow> (x # w) # ws))"

text \<open>\<open>sep.join(parts)\<close>.\<close>

fun join :: "string \<Rightarrow> string list \<Rightarrow> string" where
  "join sep [] = []"
| "join sep [p] = p"
| "join sep (p # q # ps) = p @ sep @ join sep (q # ps)"

definition lstrip :: "char \<Rightarrow> string \<Rightarrow> string" where
  "lstrip c s = dropWhile (\<lambda>x. x = c) s"

definition rstrip :: "char \<Rightarrow> string \<Rightarrow> string" where
  "rstrip c s = rev (dropWhile (\<lambda>x. x = c) (rev s))"

definition strip :: "char \<Rightarrow> string \<Rightarrow> string" where
  "strip c s = rstrip c (lstrip c s)"

text \<open>
  \<open>os.path.join\<close>, \<open>os.path.dirname\<close> and \<open>os.path.basename\<close> of the standard
  library, in their POSIX form (\<open>posixpath\<close>), for two components.
\<close>

definition os_path_join :: "string \<Rightarrow> string \<Rightarrow> string" where
  "os_path_join a b =
     (if startswith b ''/'' then b
      else if a = [] \<or> endswith a ''/'' then a @ b
      else a @ ''/'' @ b)"

text \<open>\<open>p.rfind('/') + 1\<close>: the length of the longest prefix that ends with a slash.\<close>

fun rfind_slash_plus1 :: "string \<Rightarrow> nat" where
  "rfind_slash_plus1 [] = 0"
| "rfind_slash_plus1 (x # xs) =
     (let i = rfind_slash_plus1 xs
      in if i > 0 then Suc i else if x = CHR ''/'' then 1 else 0)"

definition dirname :: "string \<Rightarrow> string" where
  "dirname p =
     (let i = rfind_slash_plus1 p; head = take i p
      in if head \<noteq> [] \<and> head \<noteq> replicate (length head) CHR ''/''
         then rstrip CHR ''/'' head else head)"

definition basename :: "string \<Rightarrow> string" where
  "basename p = drop (rfind_slash_plus1 p) p"

section \<open>The virtual file system (\<open>filesystem/virtual_fs.py\<close>)\<close>

text \<open>
  A node is one of the two dictionary shapes the class ever builds. The children of a
  directory are a Python \<open>dict\<close>: an association list in insertion order, looked up with
  \<^const>\<open>map_of\<close>, assigned with \<^const>\<open>AList.update\<close> (an existing key keeps its place,
  a new key goes to the end) and deleted from with \<^const>\<open>AList.delete\<close>.
\<close>

datatype node =
    File (content: string) (created: string) (modified: string)
         (permissions: string) (size_field: nat)
  | Directory (created: string) (modified: string) (permissions: string)
         (children: "(string \<times> node) list")

record vfs =
  virtual_fs :: node
  current_path :: string

fun is_dir_node :: "node \<Rightarrow> bool" where
  "is_dir_node (Directory _ _ _ _) = True"
| "is_dir_node (File _ _ _ _ _) = False"

fun is_file_node :: "node \<Rightarrow> bool" where
  "is_file_node (File _ _ _ _ _) = True"
| "is_file_node (Directory _ _ _ _) = False"

subsection \<open>\<open>normalize_path\<close>\<close>

text \<open>The body of the loop over \<open>path.split('/')\<close>; the accumulator is \<open>parts\<close>.\<close>

fun normalize_loop :: "string list \<Rightarrow> string list \<Rightarrow> string list" where
  "normalize_loop parts [] = parts"
| "normalize_loop parts (part # rest) =
     (if part = [] \<or> part = ''.'' then normalize_loop parts rest
      else if part = ''..'' then
        (if parts \<noteq> [] \<and> last parts \<noteq> ''..''
         then normalize_loop (butlast parts) rest
         else normalize_loop parts rest)
      else normalize_loop (parts @ [part]) rest)"

definition normalize_path :: "vfs \<Rightarrow> string \<Rightarrow> string" where
  "normalize_path fs path =
     (let path = (if \<not> startswith path ''/'' then os_path_join (current_path fs) path
                  else path);
          parts = normalize_loop [] (split CHR ''/'' path);
          result = ''/'' @ join ''/'' parts
      in if result \<noteq> ''/'' \<or> length parts = 0 then result
         else rstrip CHR ''/'' result)"

subsection \<open>Looking nodes up\<close>

text \<open>
  The loop of \<open>get_node\<close> over the path components: \<open>current\<close> has to be a directory
  that holds \<open>part\<close>, otherwise the result is \<open>None\<close>.
\<close>

fun walk :: "node \<Rightarrow> string list \<Rightarrow> node option" where
  "walk current [] = Some current"
| "walk current (part # parts) =
     (case current of
        Directory _ _ _ ch \<Rightarrow>
          (case map_of ch part of Some child \<Rightarrow> walk child parts | None \<Rightarrow> None)
      | File _ _ _ _ _ \<Rightarrow> None)"

text \<open>
  \<open>get_node\<close> returns a reference to a dictionary inside the tree, which its callers then
  mutate. \<open>node_ref\<close> is the chain of child names \<open>get_node\<close> follows from the root for
  a path (empty for \<open>'/'\<close>); the node is what \<^const>\<open>walk\<close> finds along it.
\<close>

definition node_ref :: "vfs \<Rightarrow> string \<Rightarrow> string list" where
  "node_ref fs path =
     (let path = normalize_path fs path
      in if path = ''/'' then [] else split CHR ''/'' (strip CHR ''/'' path))"

definition get_node :: "vfs \<Rightarrow> string \<Rightarrow> node option" where
  "get_node fs path = walk (virtual_fs fs) (node_ref fs path)"

text \<open>The parent node, the reference it was found at, and the item name.\<close>

definition get_parent_node :: "vfs \<Rightarrow> string \<Rightarrow> node option \<times> string list \<times> string" where
  "get_parent_node fs path =
     (let path = normalize_path fs path;
          parent_path = dirname path;
          item_name = basename path
      in (get_node fs parent_path, node_ref fs parent_path, item_name))"

definition exists :: "vfs \<Rightarrow> string \<Rightarrow> bool" where
  "exists fs path = (get_node fs path \<noteq> None)"

definition is_directory :: "vfs \<Rightarrow> string \<Rightarrow> bool" where
  "is_directory fs path =
     (case get_node fs path of Some node \<Rightarrow> is_dir_node node | None \<Rightarrow> False)"

definition is_file :: "vfs \<Rightarrow> string \<Rightarrow> bool" where
  "is_file fs path =
     (case get_node fs path of Some node \<Rightarrow> is_file_node node | None \<Rightarrow> False)"

subsection \<open>Mutation through a reference\<close>

text \<open>
  The tree owns its nodes: the seed is a tree, \<open>copy_item\<close> deep-copies, and \<open>move_item\<close>
  hangs a node in one slot and takes it out of another. A dictionary reached along a chain
  of names is therefore reached along that chain only, and mutating it in place is
  rebuilding the tree along the chain.
\<close>

fun update_at :: "string list \<Rightarrow> (node \<Rightarrow> node) \<Rightarrow> node \<Rightarrow> node" where
  "update_at [] f n = f n"
| "update_at (part # parts) f n =
     (case n of
        Directory cr mo pe ch \<Rightarrow>
          (case map_of ch part of
             Some child \<Rightarrow> Directory cr mo pe (AList.update part (update_at parts f child) ch)
           | None \<Rightarrow> n)
      | File _ _ _ _ _ \<Rightarrow> n)"

definition update_node :: "vfs \<Rightarrow> string list \<Rightarrow> (node \<Rightarrow> node) \<Rightarrow> vfs" where
  "update_node fs ref f = fs\<lparr>virtual_fs := update_at ref f (virtual_fs fs)\<rparr>"

text \<open>\<open>d['children'][name] = v\<close> and \<open>del d['children'][name]\<close>.\<close>

fun set_child :: "string \<Rightarrow> node \<Rightarrow> node \<Rightarrow> node" where
  "set_child name v (Directory cr mo pe ch) = Directory cr mo pe (AList.update name v ch)"
| "set_child name v (File co cr mo pe sz) = File co cr mo pe sz"

fun del_child :: "string \<Rightarrow> node \<Rightarrow> node" where
  "del_child name (Directory cr mo pe ch) = Directory cr mo pe (AList.delete name ch)"
| "del_child name (File co cr mo pe sz) = File co cr mo pe sz"

text \<open>\<open>n['modified'] = t\<close> and \<open>n['created'] = t\<close>.\<close>

fun set_modified :: "string \<Rightarrow> node \<Rightarrow> node" where
  "set_modified t (Directory cr mo pe ch) = Directory cr t pe ch"
| "set_modified t (File co cr mo pe sz) = File co cr t pe sz"

fun set_created :: "string \<Rightarrow> node \<Rightarrow> node" where
  "set_created t (Directory cr mo pe ch) = Directory t mo pe ch"
| "set_created t (File co cr mo pe sz) = File co t mo pe sz"

subsection \<open>The operations\<close>

text \<open>
  Every operation that stamps a time takes the formatted \<open>datetime.now()\<close> as the
  argument \<open>now\<close>, and returns the new file system with the Boolean the method returns.
\<close>

definition create_directory :: "vfs \<Rightarrow> string \<Rightarrow> string \<Rightarrow> vfs \<times> bool" where
  "create_directory fs now path =
     (let path = normalize_path fs path;
          (parent, pref, dir_name) = get_parent_node fs path
      in case parent of
           Some (Directory _ _ _ ch) \<Rightarrow>
             (if map_of ch dir_name = None
              then (update_node fs pref
                      (set_child dir_name (Directory now now ''drwxr-xr-x'' [])), True)
              else (fs, False))
         | _ \<Rightarrow> (fs, False))"

definition create_file :: "vfs \<Rightarrow> string \<Rightarrow> string \<Rightarrow> string \<Rightarrow> vfs \<times> bool" where
  "create_file fs now path content' =
     (let path = normalize_path fs path;
          (parent, pref, file_name) = get_parent_node fs path
      in case parent of
           Some (Directory _ _ _ _) \<Rightarrow>
             (update_node fs pref
                (set_child file_name
                   (File content' now now ''-rw-r--r--'' (length content'))), True)
         | _ \<Rightarrow> (fs, False))"

definition write_file :: "vfs \<Rightarrow> string \<Rightarrow> string \<Rightarrow> string \<Rightarrow> vfs \<times> bool" where
  "write_file fs now path content' =
     (case get_node fs path of
        Some (File _ cr _ pe _) \<Rightarrow>
          (update_node fs (node_ref fs path)
             (\<lambda>_. File content' cr now pe (length content')), True)
      | _ \<Rightarrow> create_file fs now path content')"

definition read_file :: "vfs \<Rightarrow> string \<Rightarrow> string option" where
  "read_file fs path =
     (case get_node fs path of Some (File co _ _ _ _) \<Rightarrow> Some co | _ \<Rightarrow> None)"

definition remove_item :: "vfs \<Rightarrow> string \<Rightarrow> vfs \<times> bool" where
  "remove_item fs path =
     (let path = normalize_path fs path;
          (parent, pref, item_name) = get_parent_node fs path
      in case parent of
           Some (Directory _ _ _ ch) \<Rightarrow>
             (if map_of ch item_name \<noteq> None
              then (update_node fs pref (del_child item_name), True)
              else (fs, False))
         | _ \<Rightarrow> (fs, False))"

text \<open>
  \<open>move_item\<close> assigns the item into the destination directory, deletes the source entry
  from the source directory and stamps the item. The deletion acts on the dictionary
  \<open>src_parent\<close> that was fetched before the assignment: when the assignment has just
  replaced that dictionary or one of its ancestors (the destination slot lies on the way to
  the source directory), it is no longer part of the tree and the deletion changes nothing
  that can be reached. In every other case the source directory is still found along
  \<open>src_ref\<close>.
\<close>

definition move_item :: "vfs \<Rightarrow> string \<Rightarrow> string \<Rightarrow> string \<Rightarrow> vfs \<times> bool" where
  "move_item fs now src_path dst_path =
     (let src_path = normalize_path fs src_path;
          dst_path = normalize_path fs dst_path;
          (src_parent, src_ref, src_name) = get_parent_node fs src_path;
          (dst_parent, dst_ref, dst_name) = get_parent_node fs dst_path
      in case src_parent of
           Some (Directory _ _ _ src_ch) \<Rightarrow>
             (case dst_parent of
                Some (Directory _ _ _ _) \<Rightarrow>
                  (case map_of src_ch src_name of
                     Some item \<Rightarrow>
                       (let item = set_modified now item;
                            fs1 = update_node fs dst_ref (set_child dst_name item);
                            fs2 = (if take (Suc (length dst_ref)) src_ref = dst_ref @ [dst_name]
                                   then fs1
                                   else update_node fs1 src_ref (del_child src_name))
                        in (fs2, True))
                   | None \<Rightarrow> (fs, False))
              | _ \<Rightarrow> (fs, False))
         | _ \<Rightarrow> (fs, False))"

definition copy_item :: "vfs \<Rightarrow> string \<Rightarrow> string \<Rightarrow> string \<Rightarrow> vfs \<times> bool" where
  "copy_item fs now src_path dst_path =
     (let src_path = normalize_path fs src_path;
          dst_path = normalize_path fs dst_path;
          src_node = get_node fs src_path;
          (dst_parent, dst_ref, dst_name) = get_parent_node fs dst_path
      in case src_node of
           Some n \<Rightarrow>
             (case dst_parent of
                Some (Directory _ _ _ _) \<Rightarrow>
                  (update_node fs dst_ref
                     (set_child dst_name (set_modified now (set_created now n))), True)
              | _ \<Rightarrow> (fs, False))
         | None \<Rightarrow> (fs, False))"

text \<open>
  \<open>str.lower\<close>, character by character: the upper-case letters below code point 256 are
  \<open>A\<close> to \<open>Z\<close> and \<open>U+00C0\<close> to \<open>U+00DE\<close> without \<open>U+00D7\<close>, each 32 below its lower-case
  letter.
\<close>

definition upper_letters :: string where
  "upper_letters = ''ABCDEFGHIJKLMNOPQRSTUVWXYZ'' @
       [CHR 0xC0, CHR 0xC1, CHR 0xC2, CHR 0xC3, CHR 0xC4, CHR 0xC5, CHR 0xC6, CHR 0xC7,
        CHR 0xC8, CHR 0xC9, CHR 0xCA, CHR 0xCB, CHR 0xCC, CHR 0xCD, CHR 0xCE, CHR 0xCF,
        CHR 0xD0, CHR 0xD1, CHR 0xD2, CHR 0xD3, CHR 0xD4, CHR 0xD5, CHR 0xD6, CHR 0xD8,
        CHR 0xD9, CHR 0xDA, CHR 0xDB, CHR 0xDC, CHR 0xDD, CHR 0xDE]"

definition lower_letters :: string where
  "lower_letters = ''abcdefghijklmnopqrstuvwxyz'' @
       [CHR 0xE0, CHR 0xE1, CHR 0xE2, CHR 0xE3, CHR 0xE4, CHR 0xE5, CHR 0xE6, CHR 0xE7,
        CHR 0xE8, CHR 0xE9, CHR 0xEA, CHR 0xEB, CHR 0xEC, CHR 0xED, CHR 0xEE, CHR 0xEF,
        CHR 0xF0, CHR 0xF1, CHR 0xF2, CHR 0xF3, CHR 0xF4, CHR 0xF5, CHR 0xF6, CHR 0xF8,
        CHR 0xF9, CHR 0xFA, CHR 0xFB, CHR 0xFC, CHR 0xFD, CHR 0xFE]"

definition lower_char :: "char \<Rightarrow> char" where
  "lower_char c =
     (case map_of (zip upper_letters lower_letters) c of
        Some l \<Rightarrow> l
      | None \<Rightarrow> c)"

definition lower :: "string \<Rightarrow> string" where
  "lower s = map lower_char s"

text \<open>The \<open>items\<close> list of \<open>list_directory\<close> before it is sorted, and its sort key.\<close>

definition display_name :: "string \<times> node \<Rightarrow> string" where
  "display_name e = (if is_dir_node (snd e) then fst e @ ''/'' else fst e)"

definition list_key :: "string \<Rightarrow> bool \<times> string" where
  "list_key x = (endswith x ''/'', lower x)"

definition list_directory :: "vfs \<Rightarrow> string \<Rightarrow> string list" where
  "list_directory fs path =
     (case get_node fs path of
        Some (Directory _ _ _ ch) \<Rightarrow> sort_key list_key (map display_name ch)
      | _ \<Rightarrow> [])"

text \<open>
  \<open>get_detailed_listing\<close>: one dictionary for each child, with the keys \<open>name\<close>,
  \<open>type\<close>, \<open>permissions\<close>, \<open>size\<close>, \<open>modified\<close> and \<open>is_directory\<close>, sorted by
  \<open>(not is_directory, name.lower())\<close>.
\<close>

record detailed_item =
  item_name :: string
  item_type :: string
  item_permissions :: string
  item_size :: nat
  item_modified :: string
  item_is_directory :: bool

definition detailed_item_of :: "string \<times> node \<Rightarrow> detailed_item" where
  "detailed_item_of e =
     (case snd e of
        File co cr mo pe sz \<Rightarrow>
          \<lparr>item_name = fst e, item_type = ''file'', item_permissions = pe, item_size = sz,
           item_modified = mo, item_is_directory = False\<rparr>
      | Directory cr mo pe ch \<Rightarrow>
          \<lparr>item_name = fst e, item_type = ''directory'', item_permissions = pe, item_size = 0,
           item_modified = mo, item_is_directory = True\<rparr>)"

definition detailed_key :: "detailed_item \<Rightarrow> bool \<times> string" where
  "detailed_key x = (\<not> item_is_directory x, lower (item_name x))"

definition get_detailed_listing :: "vfs \<Rightarrow> string \<Rightarrow> detailed_item list" where
  "get_detailed_listing fs path =
     (case get_node fs path of
        Some (Directory _ _ _ ch) \<Rightarrow> sort_key detailed_key (map detailed_item_of ch)
      | _ \<Rightarrow> [])"

definition change_directory :: "vfs \<Rightarrow> string \<Rightarrow> vfs \<times> bool" where
  "change_directory fs path =
     (let path = (if path = ''~'' then ''/home/user'' else path);
          target_path = normalize_path fs path
      in if is_directory fs target_path
         then (fs\<lparr>current_path := target_path\<rparr>, True)
         else (fs, False))"

text \<open>The seed tree of \<open>__init__\<close>.\<close>

definition seed_time :: string where
  "seed_time = ''2024-01-01 00:00:00''"

definition seed_dir :: "string \<Rightarrow> (string \<times> node) list \<Rightarrow> node" where
  "seed_dir perms ch = Directory seed_time seed_time perms ch"

definition initial_fs :: vfs where
  "initial_fs = \<lparr>
     virtual_fs = seed_dir ''drwxr-xr-x''
       [(''home'', seed_dir ''drwxr-xr-x''
          [(''user'', seed_dir ''drwxr-xr-x''
             [(''documents'', seed_dir ''drwxr-xr-x''
                 [(''readme.txt'',
                   File (''Welcome to the virtual file system!'' @ [CHR 0x0A] @
                         ''This is a safe environment for testing commands.'')
                        seed_time seed_time ''-rw-r--r--'' 89)]),
              (''downloads'', seed_dir ''drwxr-xr-x'' []),
              (''projects'', seed_dir ''drwxr-xr-x''
                 [(''script.py'',
                   File (''#!/usr/bin/env python3'' @ [CHR 0x0A] @
                         ''print('' @ [CHR 0x22] @ ''Hello, Virtual World!'' @ [CHR 0x22] @
                         '')'' @ [CHR 0x0A])
                        seed_time seed_time ''-rwxr-xr-x'' 46)])])]),
        (''tmp'', seed_dir ''drwxrwxrwx'' []),
        (''etc'', seed_dir ''drwxr-xr-x''
          [(''hosts'',
            File (''127.0.0.1 localhost'' @ [CHR 0x0A] @ ''::1 localhost'' @ [CHR 0x0A])
                 seed_time seed_time ''-rw-r--r--'' 26)])],
     current_path = ''/home/user'' \<rparr>"

section \<open>The file commands (\<open>commands/file_operations.py\<close>)\<close>

text \<open>
  The colour codes of \<open>utils/colors.py\<close> that the two commands use.
\<close>

definition RESET :: string where "RESET = CHR 0x1B # ''[0m''"

definition RED :: string where "RED = CHR 0x1B # ''[31m''"

definition GREEN :: string where "GREEN = CHR 0x1B # ''[32m''"

definition YELLOW :: string where "YELLOW = CHR 0x1B # ''[33m''"

text \<open>
  \<open>FileOperations\<close> works on the virtual file system when it was given one
  (\<open>use_virtual\<close>) and on the host's file system otherwise. The host is a state of an
  arbitrary type \<open>'w\<close>; the library calls on it (\<open>os.makedirs(name, exist_ok=True)\<close>,
  \<open>Path(name).touch()\<close>) are parameters that return the text of the exception they raise,
  if any, and the new state.
\<close>

datatype 'w backend = Virtual vfs | Real 'w

text \<open>
  The loop of \<open>cmd_mkdir\<close>: both branches of its body return from the method.
\<close>

fun mkdir_loop ::
  "(string \<Rightarrow> 'w \<Rightarrow> string option \<times> 'w) \<Rightarrow> string \<Rightarrow> 'w backend \<Rightarrow> string list
     \<Rightarrow> 'w backend \<times> string" where
  "mkdir_loop makedirs now ops [] = (ops, [])"
| "mkdir_loop makedirs now ops (dir_name # rest) =
     (if startswith dir_name ''-'' then mkdir_loop makedirs now ops rest
      else
        (case ops of
           Virtual fs \<Rightarrow>
             (case create_directory fs now dir_name of
                (fs', ok) \<Rightarrow>
                  if ok then (Virtual fs', GREEN @ ''Directory created: '' @ dir_name @ RESET)
                  else (Virtual fs', RED @ ''Failed to create directory: '' @ dir_name @ RESET))
         | Real w \<Rightarrow>
             (case makedirs dir_name w of
                (None, w') \<Rightarrow> (Real w', GREEN @ ''Directory created: '' @ dir_name @ RESET)
              | (Some e, w') \<Rightarrow> (Real w', RED @ ''Error creating directory: '' @ e @ RESET))))"

definition cmd_mkdir ::
  "(string \<Rightarrow> 'w \<Rightarrow> string option \<times> 'w) \<Rightarrow> string \<Rightarrow> 'w backend \<Rightarrow> string list
     \<Rightarrow> 'w backend \<times> string" where
  "cmd_mkdir makedirs now ops args =
     (if args = [] then (ops, YELLOW @ ''Usage: mkdir <directory_name>'' @ RESET)
      else mkdir_loop makedirs now ops args)"

text \<open>
  The loop of \<open>cmd_touch\<close> with its \<open>results\<close> list. \<open>clock i\<close> is the time read in
  iteration \<open>i\<close>. For a path that exists and is not a file the body does nothing.
\<close>

fun touch_loop ::
  "(string \<Rightarrow> 'w \<Rightarrow> string option \<times> 'w) \<Rightarrow> (nat \<Rightarrow> string) \<Rightarrow> nat \<Rightarrow> 'w backend
     \<Rightarrow> string list \<Rightarrow> string list \<Rightarrow> 'w backend \<times> string list" where
  "touch_loop touch clock i ops [] results = (ops, results)"
| "touch_loop touch clock i ops (file_name # rest) results =
     (case ops of
        Virtual fs \<Rightarrow>
          (if exists fs file_name then
             (case get_node fs file_name of
                Some (File _ _ _ _ _) \<Rightarrow>
                  touch_loop touch clock (Suc i)
                    (Virtual (update_node fs (node_ref fs file_name) (set_modified (clock i))))
                    rest (results @ [GREEN @ ''Updated timestamp: '' @ file_name @ RESET])
              | _ \<Rightarrow> touch_loop touch clock (Suc i) (Virtual fs) rest results)
           else
             (case create_file fs (clock i) file_name [] of
                (fs', ok) \<Rightarrow>
                  touch_loop touch clock (Suc i) (Virtual fs') rest
                    (results @ [if ok then GREEN @ ''File created: '' @ file_name @ RESET
                                else RED @ ''Failed to create file: '' @ file_name @ RESET])))
      | Real w \<Rightarrow>
          (case touch file_name w of
             (None, w') \<Rightarrow>
               touch_loop touch clock (Suc i) (Real w') rest
                 (results @ [GREEN @ ''File created/updated: '' @ file_name @ RESET])
           | (Some e, w') \<Rightarrow>
               touch_loop touch clock (Suc i) (Real w') rest
                 (results @ [RED @ ''Error: '' @ e @ RESET])))"

definition cmd_touch ::
  "(string \<Rightarrow> 'w \<Rightarrow> string option \<times> 'w) \<Rightarrow> (nat \<Rightarrow> string) \<Rightarrow> 'w backend \<Rightarrow> string list
     \<Rightarrow> 'w backend \<times> string" where
  "cmd_touch touch clock ops args =
     (if args = [] then (ops, YELLOW @ ''Usage: touch <filename>'' @ RESET)
      else (case touch_loop touch clock 0 ops args [] of
              (ops', results) \<Rightarrow> (ops', join [CHR 0x0A] results)))"

section \<open>The natural-language interpreter (\<open>commands/ai_commands.py\<close>)\<close>

text \<open>
  White space as \<open>str.strip\<close>, \<open>str.split\<close> and the pattern \<open>\s\<close> see it: below code point
  256 that is \<open>U+0009\<close> to \<open>U+000D\<close>, \<open>U+001C\<close> to \<open>U+0020\<close>, \<open>U+0085\<close> and \<open>U+00A0\<close>. The
  word characters of \<open>\w\<close> are the underscore and what \<open>str.isalnum\<close> accepts: the ASCII
  letters and digits, the letters from \<open>U+00C0\<close> on without \<open>U+00D7\<close> and \<open>U+00F7\<close>, the
  letters \<open>U+00AA\<close>, \<open>U+00B5\<close>, \<open>U+00BA\<close>, the superscript digits and the three fractions.
\<close>

definition is_space :: "char \<Rightarrow> bool" where
  "is_space c = (c \<in> set [CHR 0x09, CHR 0x0A, CHR 0x0B, CHR 0x0C, CHR 0x0D,
                           CHR 0x1C, CHR 0x1D, CHR 0x1E, CHR 0x1F, CHR 0x20,
                           CHR 0x85, CHR 0xA0])"

definition word_chars :: string where
  "word_chars = ''abcdefghijklmnopqrstuvwxyzABCDEFGHIJKLMNOPQRSTUVWXYZ0123456789_'' @
       [CHR 0xAA, CHR 0xB2, CHR 0xB3, CHR 0xB5, CHR 0xB9, CHR 0xBA, CHR 0xBC, CHR 0xBD,
        CHR 0xBE, CHR 0xC0, CHR 0xC1, CHR 0xC2, CHR 0xC3, CHR 0xC4, CHR 0xC5, CHR 0xC6,
        CHR 0xC7, CHR 0xC8, CHR 0xC9, CHR 0xCA, CHR 0xCB, CHR 0xCC, CHR 0xCD, CHR 0xCE,
        CHR 0xCF, CHR 0xD0, CHR 0xD1, CHR 0xD2, CHR 0xD3, CHR 0xD4, CHR 0xD5, CHR 0xD6,
        CHR 0xD8, CHR 0xD9, CHR 0xDA, CHR 0xDB, CHR 0xDC, CHR 0xDD, CHR 0xDE, CHR 0xDF,
        CHR 0xE0, CHR 0xE1, CHR 0xE2, CHR 0xE3, CHR 0xE4, CHR 0xE5, CHR 0xE6, CHR 0xE7,
        CHR 0xE8, CHR 0xE9, CHR 0xEA, CHR 0xEB, CHR 0xEC, CHR 0xED, CHR 0xEE, CHR 0xEF,
        CHR 0xF0, CHR 0xF1, CHR 0xF2, CHR 0xF3, CHR 0xF4, CHR 0xF5, CHR 0xF6, CHR 0xF8,
        CHR 0xF9, CHR 0xFA, CHR 0xFB, CHR 0xFC, CHR 0xFD, CHR 0xFE, CHR 0xFF]"

definition is_word_char :: "char \<Rightarrow> bool" where
  "is_word_char c = (c \<in> set word_chars)"

text \<open>
  \<open>query.strip()\<close>.
\<close>

definition strip_ws :: "string \<Rightarrow> string" where
  "strip_ws s = rev (dropWhile is_space (rev (dropWhile is_space s)))"

text \<open>
  \<open>s.split()\<close>: the maximal runs of characters that are not white space.
\<close>

fun chunks :: "string \<Rightarrow> string list" where
  "chunks [] = [[]]"
| "chunks (x # xs) =
     (if is_space x then [] # chunks xs
      else (case chunks xs of [] \<Rightarrow> [[x]] | w # ws \<Rightarrow> (x # w) # ws))"

definition split_ws :: "string \<Rightarrow> string list" where
  "split_ws s = filter (\<lambda>w. w \<noteq> []) (chunks s)"

text \<open>
  The patterns of the table use a small part of the \<open>re\<close> language. A character class
  is \<open>.\<close> (anything but a newline), \<open>\w\<close>, \<open>\s\<close>, \<open>[^"'\s]\<close>, \<open>["']\<close> or one character;
  all matching is under \<open>re.IGNORECASE\<close>.
\<close>

datatype cls = Any | Word | Space | NotQuoteSpace | Quote | Ch char

fun cls_match :: "cls \<Rightarrow> char \<Rightarrow> bool" where
  "cls_match Any x = (x \<noteq> CHR 0x0A)"
| "cls_match Word x = is_word_char x"
| "cls_match Space x = is_space x"
| "cls_match NotQuoteSpace x = (x \<noteq> CHR 0x22 \<and> x \<noteq> CHR 0x27 \<and> \<not> is_space x)"
| "cls_match Quote x = (x = CHR 0x22 \<or> x = CHR 0x27)"
| "cls_match (Ch c) x = (lower_char x = lower_char c)"

text \<open>
  Expressions without capturing groups: a class, a literal text, a sequence, an ordered
  choice \<open>(?:a|b|c)\<close>, a greedy option \<open>r?\<close>, the lazy \<open>c*?\<close> and the greedy \<open>c+\<close> of a
  class.
\<close>

datatype rx =
    Atom cls
  | Lit string
  | Seq rx rx
  | Alt "rx list"
  | Opt rx
  | LazyStar cls
  | Plus cls

text \<open>
  A literal at the start of the input, ignoring case; the rest of the input when it matches.
\<close>

fun lit_match :: "string \<Rightarrow> string \<Rightarrow> string option" where
  "lit_match [] s = Some s"
| "lit_match (c # cs) [] = None"
| "lit_match (c # cs) (x # xs) =
     (if lower_char x = lower_char c then lit_match cs xs else None)"

text \<open>
  The ways a quantified class can match at the start of the input, as the rests of the
  input in the order the backtracking matcher of \<open>re\<close> tries them: the lazy star takes as
  few characters as possible first, the greedy ones as many as possible first.
\<close>

fun lazy_star :: "cls \<Rightarrow> string \<Rightarrow> string list" where
  "lazy_star c [] = [[]]"
| "lazy_star c (x # xs) = (x # xs) # (if cls_match c x then lazy_star c xs else [])"

fun greedy_star :: "cls \<Rightarrow> string \<Rightarrow> string list" where
  "greedy_star c [] = [[]]"
| "greedy_star c (x # xs) = (if cls_match c x then greedy_star c xs else []) @ [x # xs]"

fun greedy_plus :: "cls \<Rightarrow> string \<Rightarrow> string list" where
  "greedy_plus c [] = []"
| "greedy_plus c (x # xs) = (if cls_match c x then greedy_star c xs else [])"

text \<open>
  All ways an expression can match at the start of the input, in backtracking order.
\<close>

fun rx_match :: "rx \<Rightarrow> string \<Rightarrow> string list" where
  "rx_match (Atom c) s = (case s of [] \<Rightarrow> [] | x # xs \<Rightarrow> if cls_match c x then [xs] else [])"
| "rx_match (Lit l) s = (case lit_match l s of Some r \<Rightarrow> [r] | None \<Rightarrow> [])"
| "rx_match (Seq a b) s = concat (map (rx_match b) (rx_match a s))"
| "rx_match (Alt rs) s = concat (map (\<lambda>r. rx_match r s) rs)"
| "rx_match (Opt a) s = rx_match a s @ [s]"
| "rx_match (LazyStar c) s = lazy_star c s"
| "rx_match (Plus c) s = greedy_plus c s"

text \<open>
  A pattern is a sequence of items: an expression outside any group, a capturing group
  around an expression, or a back-reference \<open>\n\<close>. In every pattern of the table the
  capturing groups stand in the top-level sequence, outside any choice or option, so a
  group takes part in every match and \<open>match.groups()\<close> holds a string for each.
\<close>

datatype item = P rx | G rx | B nat

text \<open>
  The \<open>groups()\<close> of all matches of a pattern at the start of the input, in backtracking
  order; \<open>groups\<close> are the groups captured so far.
\<close>

fun match_items :: "item list \<Rightarrow> string \<Rightarrow> string list \<Rightarrow> string list list" where
  "match_items [] s groups = [groups]"
| "match_items (P r # items) s groups =
     concat (map (\<lambda>s'. match_items items s' groups) (rx_match r s))"
| "match_items (G r # items) s groups =
     concat (map (\<lambda>s'. match_items items s' (groups @ [take (length s - length s') s]))
               (rx_match r s))"
| "match_items (B n # items) s groups =
     (if 0 < n \<and> n \<le> length groups
      then (case lit_match (groups ! (n - 1)) s of
              Some s' \<Rightarrow> match_items items s' groups
            | None \<Rightarrow> [])
      else [])"

text \<open>
  \<open>re.search\<close>: the first match at the leftmost position that has one; only its groups are used.
\<close>

fun search :: "item list \<Rightarrow> string \<Rightarrow> string list option" where
  "search pattern s =
     (case match_items pattern s [] of
        groups # _ \<Rightarrow> Some groups
      | [] \<Rightarrow> (case s of [] \<Rightarrow> None | _ # rest \<Rightarrow> search pattern rest))"

text \<open>
  Shorthands for the pieces the table repeats: \<open>.*?\<close>, \<open>\s+\<close>, \<open>(?:w1|w2|...)\<close>,
  \<open>(["']?)\<close>, \<open>(\w+)\<close> and \<open>([^"'\s]+)\<close>.
\<close>

definition lazy_any :: rx where "lazy_any = LazyStar Any"

definition spaces :: rx where "spaces = Plus Space"

definition lits :: "string list \<Rightarrow> rx" where "lits ws = Alt (map Lit ws)"

definition quote_group :: item where "quote_group = G (Opt (Atom Quote))"

definition word_group :: item where "word_group = G (Plus Word)"

definition name_group :: item where "name_group = G (Plus NotQuoteSpace)"

text \<open>
  \<open>self.command_patterns\<close>, in declaration order (the order a \<open>dict\<close> iterates in).
\<close>

definition command_patterns :: "(string \<times> item list list) list" where
  "command_patterns =
   [(''create_dir'',
      [[P (lits [''create'', ''make'']), P lazy_any, P (lits [''folder'', ''directory'']),
        P lazy_any, P (Opt (lits [''called'', ''named''])), P spaces,
        quote_group, word_group, B 1],
       [P (Lit ''mkdir''), P spaces, quote_group, word_group, B 1],
       [P (Lit ''new''), P spaces, P (lits [''folder'', ''directory'']), P spaces,
        quote_group, word_group, B 1]]),
    (''create_file'',
      [[P (lits [''create'', ''make'']), P lazy_any, P (Lit ''file''),
        P lazy_any, P (Opt (lits [''called'', ''named''])), P spaces,
        quote_group, name_group, B 1],
       [P (Lit ''touch''), P spaces, quote_group, name_group, B 1],
       [P (Lit ''new''), P spaces, P (Lit ''file''), P spaces,
        quote_group, name_group, B 1]]),
    (''list'',
      [[P (lits [''list'', ''show'']), P lazy_any,
        P (Alt [Lit ''files'', Lit ''directories'', Lit ''contents'',
                Seq (Lit ''what'') (Seq (Opt (Atom (Ch (CHR 0x27)))) (Lit ''s here''))])],
       [P (Lit ''what''), P lazy_any, P (lits [''here'', ''directory'', ''folder''])],
       [P (Lit ''ls'')],
       [P (Lit ''dir'')],
       [P (Lit ''show''), P spaces, P (Lit ''me''), P lazy_any,
        P (lits [''files'', ''contents''])]]),
    (''list_detailed'',
      [[P (lits [''list'', ''show'']), P lazy_any, P (lits [''detailed'', ''details'', ''long''])],
       [P (Lit ''ls''), P lazy_any, P (Lit ''-l'')],
       [P (Lit ''detailed''), P lazy_any, P (lits [''list'', ''listing''])]]),
    (''change_dir'',
      [[P (lits [''go'', ''navigate'', ''change'']), P lazy_any, P (lits [''to'', ''into'']),
        P spaces, quote_group, name_group, B 1],
       [P (Lit ''cd''), P spaces, quote_group, name_group, B 1],
       [P (Lit ''enter''), P spaces, P (lits [''folder'', ''directory'']), P spaces,
        quote_group, name_group, B 1]]),
    (''go_home'',
      [[P (Lit ''go''), P spaces, P (Lit ''home'')],
       [P (Lit ''cd''), P spaces, P (Lit ''~'')],
       [P (Lit ''home''), P spaces, P (Lit ''directory'')]]),
    (''go_back'',
      [[P (Lit ''go''), P spaces, P (Lit ''back'')],
       [P (Lit ''cd''), P spaces, P (Lit ''..'')],
       [P (Lit ''parent''), P spaces, P (Lit ''directory'')],
       [P (Lit ''up''), P spaces, P (Opt (Seq (Lit ''one'') spaces)),
        P (lits [''level'', ''directory''])]]),
    (''current_dir'',
      [[P (Lit ''where''), P lazy_any, P (Lit ''am''), P lazy_any, P (Lit ''i'')],
       [P (Lit ''current''), P lazy_any,
        P (lits [''directory'', ''folder'', ''location'', ''path''])],
       [P (Lit ''pwd'')],
       [P (Lit ''print''), P lazy_any, P (Lit ''working''), P lazy_any, P (Lit ''directory'')]]),
    (''remove_file'',
      [[P (lits [''delete'', ''remove'']), P lazy_any, P (Lit ''file''), P spaces,
        quote_group, name_group, B 1],
       [P (Lit ''rm''), P spaces, quote_group, name_group, B 1]]),
    (''remove_dir'',
      [[P (lits [''delete'', ''remove'']), P lazy_any, P (lits [''folder'', ''directory'']),
        P spaces, quote_group, name_group, B 1],
       [P (Lit ''rmdir''), P spaces, quote_group, name_group, B 1],
       [P (Lit ''rm''), P spaces, P (Lit ''-r''), P spaces, quote_group, name_group, B 1]]),
    (''copy'',
      [[P (Lit ''copy''), P spaces, quote_group, name_group, B 1, P lazy_any,
        P (lits [''to'', ''into'']), P spaces, quote_group, name_group, B 3],
       [P (Lit ''cp''), P spaces, quote_group, name_group, B 1, P spaces,
        quote_group, name_group, B 3]]),
    (''move'',
      [[P (Lit ''move''), P spaces, quote_group, name_group, B 1, P lazy_any,
        P (lits [''to'', ''into'']), P spaces, quote_group, name_group, B 3],
       [P (Lit ''mv''), P spaces, quote_group, name_group, B 1, P spaces,
        quote_group, name_group, B 3],
       [P (Lit ''rename''), P spaces, quote_group, name_group, B 1, P lazy_any,
        P (lits [''to'']), P spaces, quote_group, name_group, B 3]]),
    (''show_file'',
      [[P (lits [''show'', ''display'', ''cat'', ''read'']), P lazy_any, P (Lit ''file''),
        P spaces, quote_group, name_group, B 1],
       [P (Lit ''cat''), P spaces, quote_group, name_group, B 1],
       [P (Lit ''what''), P (Opt (Atom (Ch (CHR 0x27)))), P (Lit ''s''), P spaces,
        P (Lit ''in''), P spaces, quote_group, name_group, B 1]]),
    (''find_file'',
      [[P (Lit ''find''), P lazy_any, P (Lit ''file''), P lazy_any,
        P (lits [''called'', ''named'']), P spaces, quote_group, name_group, B 1],
       [P (Lit ''search''), P lazy_any, P (Lit ''for''), P lazy_any,
        quote_group, name_group, B 1],
       [P (Lit ''locate''), P lazy_any, quote_group, name_group, B 1]]),
    (''system_info'',
      [[P (lits [''show'', ''display'']), P lazy_any, P (Lit ''system''), P lazy_any,
        P (lits [''info'', ''information''])],
       [P (Lit ''sysinfo'')],
       [P (Lit ''system''), P spaces, P (Lit ''details'')],
       [P (Lit ''computer''), P spaces, P (Lit ''info'')]]),
    (''processes'',
      [[P (lits [''show'', ''list'']), P lazy_any,
        P (Alt [Lit ''processes'', Seq (Lit ''running'') (Seq spaces (Lit ''programs''))])],
       [P (Lit ''ps'')],
       [P (Lit ''what''), P lazy_any, P (Lit ''running'')],
       [P (Lit ''active''), P spaces, P (Lit ''processes'')]]),
    (''memory'',
      [[P (lits [''show'', ''check'']), P lazy_any, P (Lit ''memory''), P lazy_any,
        P (Lit ''usage'')],
       [P (Lit ''free''), P spaces, P (Lit ''memory'')],
       [P (Lit ''ram''), P spaces, P (Lit ''usage'')],
       [P (Lit ''memory''), P spaces, P (Lit ''info'')]]),
    (''disk_space'',
      [[P (lits [''show'', ''check'']), P lazy_any, P (Lit ''disk''), P lazy_any,
        P (lits [''space'', ''usage''])],
       [P (Lit ''df'')],
       [P (Lit ''storage''), P spaces, P (Lit ''info'')],
       [P (Lit ''free''), P spaces, P (Lit ''space'')]]),
    (''clear_screen'',
      [[P (Lit ''clear''), P lazy_any, P (lits [''screen'', ''terminal''])],
       [P (Lit ''cls'')],
       [P (Lit ''clean''), P lazy_any, P (Lit ''screen'')]]),
    (''help'',
      [[P (Lit ''help'')],
       [P (Lit ''what''), P lazy_any, P (Lit ''can''), P lazy_any, P (Lit ''do'')],
       [P (Lit ''available''), P lazy_any, P (Lit ''commands'')],
       [P (Lit ''show''), P lazy_any, P (Lit ''commands'')]])]"

definition shortcuts :: "(string \<times> string) list" where
  "shortcuts =
     [(''desktop'', ''Desktop''), (''documents'', ''Documents''),
      (''downloads'', ''Downloads''), (''home'', ''~''), (''root'', ''/''),
      (''temp'', ''/tmp''), (''temporary'', ''/tmp'')]"

text \<open>
  \<open>AICommandInterpreter.normalize_path\<close>, the look-up in \<open>self.shortcuts\<close>.
\<close>

definition ai_normalize_path :: "string \<Rightarrow> string" where
  "ai_normalize_path path =
     (let path_lower = lower path
      in case map_of shortcuts path_lower of Some p \<Rightarrow> p | None \<Rightarrow> path)"

text \<open>
  Subscripting \<open>groups\<close> can raise \<open>IndexError\<close>; it is the only operation of \<open>interpret\<close>
  and \<open>_process_match\<close> that can raise on a string. \<open>index_or groups i j\<close> is the expression
  \<open>groups[i] or groups[j]\<close>, and \<open>pick_name\<close> the four lines that most branches of
  \<open>_process_match\<close> share.
\<close>

datatype py_error = IndexError

definition py_index :: "'a list \<Rightarrow> nat \<Rightarrow> py_error + 'a" where
  "py_index xs i = (if i < length xs then Inr (xs ! i) else Inl IndexError)"

definition bind_err :: "py_error + 'a \<Rightarrow> ('a \<Rightarrow> py_error + 'b) \<Rightarrow> py_error + 'b" where
  "bind_err m f = (case m of Inl e \<Rightarrow> Inl e | Inr a \<Rightarrow> f a)"

definition index_or :: "string list \<Rightarrow> nat \<Rightarrow> nat \<Rightarrow> py_error + string" where
  "index_or groups i j =
     bind_err (py_index groups i) (\<lambda>a. if a \<noteq> [] then Inr a else py_index groups j)"

definition pick_name :: "string list \<Rightarrow> string \<Rightarrow> py_error + string" where
  "pick_name groups dflt =
     (if length groups \<ge> 2 then index_or groups 1 0
      else if groups \<noteq> [] then py_index groups 0
      else Inr dflt)"

text \<open>
  The second component \<open>_process_match\<close> returns: a list of strings, or, where the source
  writes \<open>return 'rm', [file_name] if file_name else ('rm', [])\<close>, the tuple of its
  \<open>else\<close> part.
\<close>

datatype args = Args "string list" | ArgsTuple string "string list"

definition process_match ::
  "string \<Rightarrow> string list \<Rightarrow> string \<Rightarrow> py_error + (string option \<times> args)" where
  "process_match command_type groups query =
     (if command_type = ''create_dir'' then
        bind_err (pick_name groups ''newfolder'')
          (\<lambda>dir_name. Inr (Some ''mkdir'', Args [ai_normalize_path dir_name]))
      else if command_type = ''create_file'' then
        bind_err (pick_name groups ''newfile.txt'')
          (\<lambda>file_name. Inr (Some ''touch'', Args [file_name]))
      else if command_type = ''list'' then Inr (Some ''ls'', Args [])
      else if command_type = ''list_detailed'' then Inr (Some ''ls'', Args [''-l''])
      else if command_type = ''change_dir'' then
        bind_err (pick_name groups ''.'')
          (\<lambda>dir_name. Inr (Some ''cd'', Args [ai_normalize_path dir_name]))
      else if command_type = ''go_home'' then Inr (Some ''cd'', Args [''~''])
      else if command_type = ''go_back'' then Inr (Some ''cd'', Args [''..''])
      else if command_type = ''current_dir'' then Inr (Some ''pwd'', Args [])
      else if command_type = ''remove_file'' then
        bind_err (pick_name groups [])
          (\<lambda>file_name. Inr (Some ''rm'',
             if file_name \<noteq> [] then Args [file_name] else ArgsTuple ''rm'' []))
      else if command_type = ''remove_dir'' then
        bind_err (pick_name groups [])
          (\<lambda>dir_name. Inr (Some ''rm'',
             if dir_name \<noteq> [] then Args [''-r'', dir_name] else ArgsTuple ''rm'' [''-r'']))
      else if command_type = ''copy'' then
        (if length groups \<ge> 4 then
           bind_err (index_or groups 1 0) (\<lambda>source.
           bind_err (index_or groups 3 2) (\<lambda>dest.
             Inr (Some ''cp'', Args [source, dest])))
         else Inr (None, Args []))
      else if command_type = ''move'' then
        (if length groups \<ge> 4 then
           bind_err (index_or groups 1 0) (\<lambda>source.
           bind_err (index_or groups 3 2) (\<lambda>dest.
             Inr (Some ''mv'', Args [source, dest])))
         else Inr (None, Args []))
      else if command_type = ''show_file'' then
        bind_err (pick_name groups [])
          (\<lambda>file_name. Inr (Some ''cat'',
             if file_name \<noteq> [] then Args [file_name] else ArgsTuple ''cat'' []))
      else if command_type = ''find_file'' then
        bind_err (pick_name groups ''*'')
          (\<lambda>pattern. Inr (Some ''find'', Args [pattern]))
      else if command_type = ''system_info'' then Inr (Some ''sysinfo'', Args [])
      else if command_type = ''processes'' then Inr (Some ''ps'', Args [])
      else if command_type = ''memory'' then Inr (Some ''free'', Args [])
      else if command_type = ''disk_space'' then Inr (Some ''df'', Args [])
      else if command_type = ''clear_screen'' then Inr (Some ''clear'', Args [])
      else if command_type = ''help'' then Inr (Some ''help'', Args [])
      else Inr (None, Args []))"

text \<open>
  The two nested loops of \<open>interpret\<close>; they return at the first match whose command is
  not empty.
\<close>

fun scan_patterns ::
  "string \<Rightarrow> item list list \<Rightarrow> string \<Rightarrow> py_error + (string \<times> args) option" where
  "scan_patterns command_type [] query = Inr None"
| "scan_patterns command_type (pattern # patterns) query =
     (case search pattern query of
        Some groups \<Rightarrow>
          (case process_match command_type groups query of
             Inl e \<Rightarrow> Inl e
           | Inr (Some cmd, as) \<Rightarrow>
               if cmd \<noteq> [] then Inr (Some (cmd, as))
               else scan_patterns command_type patterns query
           | Inr (None, as) \<Rightarrow> scan_patterns command_type patterns query)
      | None \<Rightarrow> scan_patterns command_type patterns query)"

fun scan_table ::
  "(string \<times> item list list) list \<Rightarrow> string \<Rightarrow> py_error + (string \<times> args) option" where
  "scan_table [] query = Inr None"
| "scan_table ((command_type, patterns) # table) query =
     (case scan_patterns command_type patterns query of
        Inl e \<Rightarrow> Inl e
      | Inr (Some c) \<Rightarrow> Inr (Some c)
      | Inr None \<Rightarrow> scan_table table query)"

text \<open>
  The fall-back of \<open>interpret\<close> on the words of the lower-cased query.
\<close>

definition first_other_word :: "string list \<Rightarrow> string list \<Rightarrow> string option" where
  "first_other_word stop ws = List.find (\<lambda>word. word \<notin> set stop) ws"

definition fallback :: "string \<Rightarrow> (string \<times> args) list" where
  "fallback query =
     (let ws = split_ws (lower query)
      in if ''create'' \<in> set ws \<or> ''make'' \<in> set ws then
           (if ''folder'' \<in> set ws \<or> ''directory'' \<in> set ws then
              (case first_other_word
                      [''create'', ''make'', ''a'', ''folder'', ''directory'', ''called'', ''named''] ws of
                 Some word \<Rightarrow> [(''mkdir'', Args [word])]
               | None \<Rightarrow> [])
            else if ''file'' \<in> set ws then
              (case first_other_word
                      [''create'', ''make'', ''a'', ''file'', ''called'', ''named''] ws of
                 Some word \<Rightarrow> [(''touch'', Args [word])]
               | None \<Rightarrow> [])
            else [])
         else [])"

text \<open>
  \<open>interpret\<close>.
\<close>

definition interpret_query :: "string \<Rightarrow> py_error + (string \<times> args) list" where
  "interpret_query query =
     (let query = strip_ws query
      in if query = [] then Inr []
         else (case scan_table command_patterns query of
                 Inl e \<Rightarrow> Inl e
               | Inr (Some c) \<Rightarrow> Inr [c]
               | Inr None \<Rightarrow> Inr (fallback query)))"

section \<open>The dispatcher (\<open>terminal_core.py\<close>, \<open>utils/command_parser.py\<close>)\<close>

text \<open>
  Two more colour codes of \<open>utils/colors.py\<close>.
\<close>

definition CYAN :: string where "CYAN = CHR 0x1B # ''[36m''"

definition BOLD :: string where "BOLD = CHR 0x1B # ''[1m''"

text \<open>
  What is outside the repository is a parameter: \<open>shlex.split\<close> (the tokens, or the
  message of the \<open>ValueError\<close> it raises), the handlers of \<open>FileOperations\<close> and
  \<open>SystemCommands\<close> by command name (they hold the file system or the host, never the
  terminal; each returns its text or the message of the exception it raises, and the new
  state), \<open>os.system\<close> for clearing the screen, the outcome of \<open>subprocess.run\<close>, the two
  long fixed texts, and the two symbols of the \<open>ai\<close> output that are not ASCII.
\<close>

datatype proc_result = Completed int string string | TimeoutExpired | OtherError string

record 'w env =
  shlex_split :: "string \<Rightarrow> string + string list"
  external :: "string \<Rightarrow> string list \<Rightarrow> 'w \<Rightarrow> (string + string) \<times> 'w"
  os_system_clear :: "'w \<Rightarrow> 'w"
  subprocess_run :: "string \<Rightarrow> 'w \<Rightarrow> proc_result \<times> 'w"
  help_text :: string
  ai_usage :: string
  arrow :: string
  bullet :: string

text \<open>
  The fields of \<open>Terminal\<close> that \<open>execute\<close> reads or writes; \<open>world\<close> is the state the
  file and system handlers work on.
\<close>

record 'w terminal =
  use_virtual :: bool
  running :: bool
  command_history :: "string list"
  world :: 'w

text \<open>
  \<open>CommandParser.parse\<close>.
\<close>

definition parse :: "(string \<Rightarrow> string + string list) \<Rightarrow> string \<Rightarrow> string + string \<times> string list" where
  "parse split_fn command_line =
     (if strip_ws command_line = [] then Inr ([], [])
      else (case split_fn (strip_ws command_line) of
              Inl msg \<Rightarrow> Inl (''Invalid command syntax: '' @ msg)
            | Inr parts \<Rightarrow>
                (case parts of
                   [] \<Rightarrow> Inr ([], [])
                 | command # as \<Rightarrow> Inr (command, as))))"

text \<open>
  The dictionary \<open>_register_commands\<close> builds, each name with the kind of its handler.
\<close>

datatype handler = FileOps | SystemCommands | Ai | Echo | Clear | Help | History | Exit

definition commands :: "(string \<times> handler) list" where
  "commands =
     [(''ls'', FileOps), (''cd'', FileOps), (''pwd'', FileOps), (''mkdir'', FileOps),
      (''rm'', FileOps), (''rmdir'', FileOps), (''touch'', FileOps), (''cat'', FileOps),
      (''cp'', FileOps), (''mv'', FileOps), (''find'', FileOps), (''grep'', FileOps),
      (''ps'', SystemCommands), (''top'', SystemCommands), (''kill'', SystemCommands),
      (''sysinfo'', SystemCommands), (''df'', SystemCommands), (''free'', SystemCommands),
      (''uptime'', SystemCommands), (''whoami'', SystemCommands), (''date'', SystemCommands),
      (''env'', SystemCommands),
      (''ai'', Ai), (''echo'', Echo), (''clear'', Clear), (''cls'', Clear), (''help'', Help),
      (''history'', History), (''exit'', Exit), (''quit'', Exit)]"

text \<open>
  \<open>_cmd_history\<close>: the last twenty lines, numbered with \<open>{i:4d}\<close>.
\<close>

fun show_nat :: "nat \<Rightarrow> string" where
  "show_nat n =
     (if n < 10 then [''0123456789'' ! n]
      else show_nat (n div 10) @ [''0123456789'' ! (n mod 10)])"

definition rjust :: "nat \<Rightarrow> string \<Rightarrow> string" where
  "rjust w s = replicate (w - length s) CHR '' '' @ s"

definition cmd_history :: "string list \<Rightarrow> string" where
  "cmd_history history =
     (if history = [] then ''No command history''
      else (let start_idx = length history - 20
            in join [CHR 0x0A]
                 (map (\<lambda>(i, cmd). CYAN @ rjust 4 (show_nat i) @ RESET @ ''  '' @ cmd)
                    (zip [start_idx + 1 ..< length history + 1] (drop start_idx history)))))"

text \<open>
  \<open>get_suggestions\<close>, with \<open>keyword in query_lower\<close> as a substring test.
\<close>

fun is_substring :: "string \<Rightarrow> string \<Rightarrow> bool" where
  "is_substring p [] = (p = [])"
| "is_substring p (x # xs) = (take (length p) (x # xs) = p \<or> is_substring p xs)"

definition suggestion_map :: "(string \<times> string list) list" where
  "suggestion_map =
     [(''create'', [''create folder myproject'', ''create file readme.txt'']),
      (''make'', [''make directory docs'', ''make file script.py'']),
      (''list'', [''list files'', ''show directory contents'']),
      (''show'', [''show files'', ''show system info'', ''show processes'']),
      (''copy'', [''copy file1.txt to backup/'', ''copy folder1 to archive/'']),
      (''move'', [''move file.txt to documents/'', ''rename old.txt to new.txt'']),
      (''delete'', [''delete file unwanted.txt'', ''remove folder oldstuff'']),
      (''find'', [''find file *.py'', ''search for readme'']),
      (''go'', [''go to documents'', ''go home'', ''go back''])]"

definition get_suggestions :: "string \<Rightarrow> string list" where
  "get_suggestions query =
     (let query_lower = lower query
      in take 5 (concat (map (\<lambda>(keyword, examples).
                   if is_substring keyword query_lower then examples else [])
                 suggestion_map)))"

text \<open>
  The loop of \<open>cmd_ai\<close> over the interpreted commands; \<open>exec\<close> is \<open>self.terminal.execute\<close>.
  Joining the arguments raises \<open>TypeError\<close> when they are the tuple.
\<close>

definition indent_result :: "string \<Rightarrow> string" where
  "indent_result result =
     join [CHR 0x0A] (map (\<lambda>line. ''  '' @ line) (split CHR 0x0A result))"

fun ai_loop ::
  "'w env \<Rightarrow> (string \<Rightarrow> 'w terminal \<Rightarrow> string \<times> 'w terminal) \<Rightarrow> (string \<times> args) list
     \<Rightarrow> 'w terminal \<Rightarrow> string list \<Rightarrow> (string + string) \<times> 'w terminal" where
  "ai_loop env exec [] t outputs = (Inr (join [CHR 0x0A] outputs), t)"
| "ai_loop env exec ((cmd, cmd_args) # rest) t outputs =
     (case cmd_args of
        ArgsTuple _ _ \<Rightarrow> (Inl ''sequence item 1: expected str instance, list found'', t)
      | Args as \<Rightarrow>
          (let cmd_str = (if as \<noteq> [] then cmd @ '' '' @ join '' '' as else cmd);
               outputs = outputs @ [GREEN @ arrow env @ RESET @ '' Executing: '' @ BOLD @ cmd_str @ RESET]
           in case exec cmd_str t of
                (result, t') \<Rightarrow>
                  ai_loop env exec rest t'
                    (if result \<noteq> [] then outputs @ [indent_result result] else outputs)))"

text \<open>
  The answer of \<open>cmd_ai\<close> when nothing was interpreted, and \<open>cmd_ai\<close> itself.
\<close>

definition ai_unknown :: "'w env \<Rightarrow> string \<Rightarrow> string" where
  "ai_unknown env query =
     (let suggestions = get_suggestions query;
          output = YELLOW @ ''AI:'' @ RESET @ '' I couldn't understand that command.'' @ [CHR 0x0A];
          output =
            (if suggestions \<noteq> [] then
               output @ [CHR 0x0A] @ CYAN @ ''Did you mean:'' @ RESET @ [CHR 0x0A]
                 @ concat (map (\<lambda>suggestion. ''  '' @ bullet env @ '' ai '' @ suggestion @ [CHR 0x0A])
                             suggestions)
             else
               output @ [CHR 0x0A] @ CYAN @ ''Try something like:'' @ RESET @ [CHR 0x0A]
                 @ ''  '' @ bullet env @ '' ai create folder myproject'' @ [CHR 0x0A]
                 @ ''  '' @ bullet env @ '' ai show files in current directory'' @ [CHR 0x0A]
                 @ ''  '' @ bullet env @ '' ai copy file.txt to backup'' @ [CHR 0x0A]
                 @ ''  '' @ bullet env @ '' ai find files named *.py'' @ [CHR 0x0A])
      in rev (dropWhile is_space (rev output)))"

definition cmd_ai ::
  "'w env \<Rightarrow> (string \<Rightarrow> 'w terminal \<Rightarrow> string \<times> 'w terminal) \<Rightarrow> string list
     \<Rightarrow> 'w terminal \<Rightarrow> (string + string) \<times> 'w terminal" where
  "cmd_ai env exec as t =
     (if as = [] then (Inr (ai_usage env), t)
      else (let query = join '' '' as
            in case interpret_query query of
                 Inl IndexError \<Rightarrow> (Inl ''tuple index out of range'', t)
               | Inr interpreted \<Rightarrow>
                   if interpreted \<noteq> [] then
                     ai_loop env exec interpreted t
                       [CYAN @ ''AI:'' @ RESET @ '' Interpreting: '' @ YELLOW
                          @ [CHR 0x27] @ query @ [CHR 0x27] @ RESET]
                   else (Inr (ai_unknown env query), t)))"

text \<open>
  The fall-back to the host shell for an unregistered command when \<open>use_virtual\<close> is off.
\<close>

definition run_subprocess :: "'w env \<Rightarrow> string \<Rightarrow> 'w terminal \<Rightarrow> string \<times> 'w terminal" where
  "run_subprocess env command_line t =
     (case subprocess_run env command_line (world t) of
        (Completed returncode out err, w) \<Rightarrow>
          (if returncode = 0 then strip_ws out
           else RED @ ''Command failed: '' @ strip_ws err @ RESET, t\<lparr>world := w\<rparr>)
      | (TimeoutExpired, w) \<Rightarrow> (RED @ ''Command timed out'' @ RESET, t\<lparr>world := w\<rparr>)
      | (OtherError e, w) \<Rightarrow> (RED @ ''System command error: '' @ e @ RESET, t\<lparr>world := w\<rparr>))"

text \<open>
  \<open>execute\<close>. The \<open>ai\<close> handler calls \<open>execute\<close> again; \<open>depth\<close> bounds the nesting of
  such calls, and at depth \<open>0\<close> the handler raises as Python does at its recursion limit.
\<close>

fun execute :: "'w env \<Rightarrow> nat \<Rightarrow> string \<Rightarrow> 'w terminal \<Rightarrow> string \<times> 'w terminal" where
  "execute env depth command_line t =
     (if strip_ws command_line = [] then ([], t)
      else
        (case parse (shlex_split env) command_line of
           Inl e \<Rightarrow> (RED @ ''Parse error: '' @ e @ RESET, t)
         | Inr (cmd, as) \<Rightarrow>
             (let t = t\<lparr>command_history := command_history t @ [command_line]\<rparr>
              in case map_of commands cmd of
                   Some h \<Rightarrow>
                     (case
                        (case h of
                           FileOps \<Rightarrow>
                             (case external env cmd as (world t) of
                                (r, w) \<Rightarrow> (r, t\<lparr>world := w\<rparr>))
                         | SystemCommands \<Rightarrow>
                             (case external env cmd as (world t) of
                                (r, w) \<Rightarrow> (r, t\<lparr>world := w\<rparr>))
                         | Ai \<Rightarrow>
                             (case depth of
                                0 \<Rightarrow> (Inl ''maximum recursion depth exceeded'', t)
                              | Suc d \<Rightarrow> cmd_ai env (execute env d) as t)
                         | Echo \<Rightarrow> (Inr (join '' '' as), t)
                         | Clear \<Rightarrow> (Inr [], t\<lparr>world := os_system_clear env (world t)\<rparr>)
                         | Help \<Rightarrow> (Inr (help_text env), t)
                         | History \<Rightarrow> (Inr (cmd_history (command_history t)), t)
                         | Exit \<Rightarrow> (Inr (GREEN @ ''Goodbye!'' @ RESET), t\<lparr>running := False\<rparr>))
                      of
                        (Inr result, t') \<Rightarrow> (result, t')
                      | (Inl e, t') \<Rightarrow>
                          (RED @ ''Error executing '' @ cmd @ '': '' @ e @ RESET, t'))
                 | None \<Rightarrow>
                     (if \<not> use_virtual t then run_subprocess env command_line t
                      else (RED @ ''Command not found: '' @ cmd @ RESET, t)))))"

declare execute.simps [simp del]

section \<open>Auxiliary notions for the proofs about the file system\<close>

text \<open>
  The components \<open>normalize_path\<close> keeps, the path string it builds from them, and the
  components it computes for a path; the item name \<open>os.path.basename\<close> finds.
\<close>

definition ok_part :: "string \<Rightarrow> bool" where
  "ok_part p = (p \<noteq> [] \<and> CHR ''/'' \<notin> set p \<and> p \<noteq> ''.'' \<and> p \<noteq> ''..'')"

definition render :: "string list \<Rightarrow> string" where
  "render ps = ''/'' @ join ''/'' ps"

definition norm_parts :: "vfs \<Rightarrow> string \<Rightarrow> string list" where
  "norm_parts fs path =
     normalize_loop [] (split CHR ''/''
       (if \<not> startswith path ''/'' then os_path_join (current_path fs) path else path))"

definition item_name_of :: "string list \<Rightarrow> string" where
  "item_name_of ps = (if ps = [] then [] else last ps)"

text \<open>
  The \<open>(content, size)\<close> pairs of the file nodes of a tree, and the invariant that every
  \<open>size\<close> is the length of its content.
\<close>

fun files :: "node \<Rightarrow> (string \<times> nat) set" where
  "files (File co cr mo pe sz) = {(co, sz)}"
| "files (Directory cr mo pe ch) = (\<Union>e \<in> set ch. files (snd e))"

definition sizes_ok :: "node \<Rightarrow> bool" where
  "sizes_ok n = (\<forall>e \<in> files n. snd e = length (fst e))"

section \<open>A small tree for instantiating the theorems\<close>

definition tree_fs :: vfs where
  "tree_fs = \<lparr>
     virtual_fs = Directory ''t0'' ''t0'' ''drwxr-xr-x''
       [(''docs'', Directory ''t0'' ''t0'' ''drwxr-xr-x''
           [(''b.txt'', File ''bee'' ''t0'' ''t0'' ''-rw-r--r--'' 3),
            (''A.txt'', File ''a'' ''t0'' ''t0'' ''-rw-r--r--'' 1),
            (''z'', Directory ''t0'' ''t0'' ''drwxr-xr-x'' [])]),
        (''tmp'', Directory ''t0'' ''t0'' ''drwxrwxrwx'' [])],
     current_path = ''/docs'' \<rparr>"

text \<open>
  The sort key in the words of the specification, on the children themselves:
  \<open>(is_directory, lowercase name)\<close>.
\<close>

definition spec_key :: "string \<times> node \<Rightarrow> bool \<times> string" where
  "spec_key e = (is_dir_node (snd e), lower (fst e))"

text \<open>
  The small tree after \<open>mkdir /tmp/a\<close> and \<open>mkdir /tmp/a.b\<close>.
\<close>

definition dotted_fs :: vfs where
  "dotted_fs =
     fst (create_directory (fst (create_directory tree_fs ''t1'' ''/tmp/a'')) ''t2'' ''/tmp/a.b'')"

text \<open>
  A root directory with three files, named \<open>.txt\<close> behind the code point \<open>U+00C9\<close>,
  behind the code point \<open>U+00E0\<close> and behind \<open>z\<close>.
\<close>

definition accent_fs :: vfs where
  "accent_fs = \<lparr>
     virtual_fs = Directory ''t0'' ''t0'' ''drwxr-xr-x''
       [(CHR 0xC9 # ''.txt'', File [] ''t0'' ''t0'' ''-rw-r--r--'' 0),
        (CHR 0xE0 # ''.txt'', File [] ''t0'' ''t0'' ''-rw-r--r--'' 0),
        (''z.txt'', File [] ''t0'' ''t0'' ''-rw-r--r--'' 0)],
     current_path = ''/'' \<rparr>"

text \<open>
  A host that only records the names it was called with, for instantiating the library
  parameters.
\<close>

definition recording_os :: "string \<Rightarrow> string list \<Rightarrow> string option \<times> string list" where
  "recording_os name w = (None, w @ [name])"

text \<open>
  A stand-in for \<open>shlex.split\<close> that splits at white space and refuses quotes and
  backslashes, an environment around it whose \<open>cat\<close> raises, and a terminal in virtual mode with
  one line of history.
\<close>

definition plain_split :: "string \<Rightarrow> string + string list" where
  "plain_split s =
     (if CHR 0x22 \<in> set s \<or> CHR 0x27 \<in> set s \<or> CHR 0x5C \<in> set s
      then Inl ''No closing quotation'' else Inr (split_ws s))"

definition plain_env :: "unit env" where
  "plain_env = \<lparr>
     shlex_split = plain_split,
     external = (\<lambda>name as w. (if name = ''cat'' then Inl ''disk error'' else Inr name, w)),
     os_system_clear = (\<lambda>w. w),
     subprocess_run = (\<lambda>line w. (TimeoutExpired, w)),
     help_text = ''help'',
     ai_usage = ''usage'',
     arrow = ''>'',
     bullet = ''*'' \<rparr>"

definition plain_terminal :: "unit terminal" where
  "plain_terminal = \<lparr> use_virtual = True, running = True, command_history = [''ls''], world = () \<rparr>"

section \<open>Auxiliary notions for the proofs about the dispatcher\<close>

text \<open>
  The commands \<open>_process_match\<close> and the fall-back of \<open>interpret\<close> can name.
\<close>

definition canonical_commands :: "string list" where
  "canonical_commands =
     [''mkdir'', ''touch'', ''ls'', ''cd'', ''pwd'', ''rm'', ''cp'', ''mv'', ''cat'', ''find'',
      ''sysinfo'', ''ps'', ''free'', ''df'', ''clear'', ''help'']"

text \<open>
  What the history property needs of \<open>shlex.split\<close>: an input that does not begin with
  white space and whose first token is \<open>ai\<close> begins with \<open>a\<close>, a quote or a backslash.
\<close>

definition ai_first_token :: "'w env \<Rightarrow> bool" where
  "ai_first_token env =
     (\<forall>s rest. s \<noteq> [] \<and> \<not> is_space (hd s) \<and> shlex_split env s = Inr (''ai'' # rest)
        \<longrightarrow> hd s \<in> {CHR ''a'', CHR 0x27, CHR 0x22, CHR 0x5C})"

definition canonical_result :: "py_error + (string option \<times> args) \<Rightarrow> bool" where
  "canonical_result r =
     (case r of
        Inl _ \<Rightarrow> True
      | Inr (None, _) \<Rightarrow> True
      | Inr (Some cmd, _) \<Rightarrow> cmd \<in> set canonical_commands)"

text \<open>
  A line that begins with the first letter of one of these commands.
\<close>

definition canon_line :: "string \<Rightarrow> bool" where
  "canon_line s = (s \<noteq> [] \<and> hd s \<in> set ''mtlcprfsdh'')"

text \<open>
  An executor that, on lines with the property \<open>Q\<close>, only appends lines with \<open>Q\<close> to the history.
\<close>

definition extends_history ::
  "(string \<Rightarrow> bool) \<Rightarrow> (string \<Rightarrow> 'w terminal \<Rightarrow> string \<times> 'w terminal) \<Rightarrow> bool" where
  "extends_history Q exec =
     (\<forall>s t. Q s \<longrightarrow>
        (\<exists>extra. command_history (snd (exec s t)) = command_history t @ extra
                 \<and> (\<forall>x\<in>set extra. Q x)))"

section \<open>Path normalisation and the tree operations\<close>

lemma split_nonempty: "split c s \<noteq> []"
  by (induction s) (auto split: list.splits)

lemma split_no_sep: "w \<in> set (split c s) \<Longrightarrow> c \<notin> set w"
  by (induction s arbitrary: w) (auto split: list.splits if_splits)

lemma butlast_ok: "list_all ok_part acc \<Longrightarrow> list_all ok_part (butlast acc)"
  by (auto simp: list_all_iff dest: in_set_butlastD)

lemma normalize_loop_ok:
  "list_all ok_part acc \<Longrightarrow> list_all (\<lambda>w. CHR ''/'' \<notin> set w) xs
     \<Longrightarrow> list_all ok_part (normalize_loop acc xs)"
proof (induction xs arbitrary: acc)
  case Nil
  then show ?case by simp
next
  case (Cons x xs)
  have rest: "list_all (\<lambda>w. CHR ''/'' \<notin> set w) xs" using Cons.prems(2) by simp
  have x: "CHR ''/'' \<notin> set x" using Cons.prems(2) by simp
  show ?case
  proof (cases "x = [] \<or> x = ''.''")
    case True
    then show ?thesis using Cons.IH[OF Cons.prems(1) rest] by auto
  next
    case False
    show ?thesis
    proof (cases "x = ''..''")
      case True
      then show ?thesis
        using Cons.IH[OF Cons.prems(1) rest] Cons.IH[OF butlast_ok[OF Cons.prems(1)] rest]
        by auto
    next
      case ndd: False
      have "list_all ok_part (acc @ [x])"
        using Cons.prems(1) False ndd x by (simp add: ok_part_def[of x])
      then show ?thesis using Cons.IH[OF _ rest] False ndd by simp
    qed
  qed
qed

lemma normalize_loop_fix:
  "list_all ok_part xs \<Longrightarrow> normalize_loop acc xs = acc @ xs"
  by (induction xs arbitrary: acc) (auto simp: ok_part_def)

lemma norm_parts_ok: "list_all ok_part (norm_parts fs p)"
  unfolding norm_parts_def
  by (rule normalize_loop_ok) (auto simp: list_all_iff dest: split_no_sep)

lemma join_Cons: "ps \<noteq> [] \<Longrightarrow> join sep (p # ps) = p @ sep @ join sep ps"
  by (cases ps) auto

lemma split_append_sep:
  "c \<notin> set w \<Longrightarrow> split c (w @ c # s) = w # split c s"
  by (induction w) (auto split: list.splits simp: split_nonempty)

lemma split_no_sep_id: "c \<notin> set w \<Longrightarrow> split c w = [w]"
  by (induction w) (auto split: list.splits)

lemma split_join:
  "ps \<noteq> [] \<Longrightarrow> list_all (\<lambda>w. CHR ''/'' \<notin> set w) ps \<Longrightarrow> split CHR ''/'' (join ''/'' ps) = ps"
proof (induction ps rule: list_nonempty_induct)
  case (single p)
  then show ?case by (simp add: split_no_sep_id)
next
  case (cons p ps)
  then show ?case
    using split_append_sep[of "CHR ''/''" p "join ''/'' ps"] by (simp add: join_Cons)
qed

lemma ok_part_no_slash: "list_all ok_part ps \<Longrightarrow> list_all (\<lambda>w. CHR ''/'' \<notin> set w) ps"
  by (auto simp: list_all_iff ok_part_def)

lemma split_render:
  "list_all ok_part ps \<Longrightarrow> split CHR ''/'' (render ps) = [] # (if ps = [] then [[]] else ps)"
  using split_join[of ps] by (auto simp: render_def dest: ok_part_no_slash)

lemma join_eq_Nil: "list_all ok_part ps \<Longrightarrow> join ''/'' ps = [] \<longleftrightarrow> ps = []"
proof (cases ps)
  case Nil
  then show ?thesis by simp
next
  case (Cons p qs)
  assume "list_all ok_part ps"
  then have "p \<noteq> []" using Cons by (simp add: ok_part_def)
  then show ?thesis using Cons by (cases qs) auto
qed

lemma normalize_path_render: "normalize_path fs p = render (norm_parts fs p)"
  using join_eq_Nil[OF norm_parts_ok[of fs p]]
  by (auto simp: normalize_path_def norm_parts_def render_def Let_def)

lemma norm_parts_render:
  "list_all ok_part ps \<Longrightarrow> norm_parts fs (render ps) = ps"
proof -
  assume ok: "list_all ok_part ps"
  have sw: "startswith (render ps) ''/''" by (simp add: startswith_def render_def)
  show ?thesis
    using ok sw split_render[OF ok] normalize_loop_fix[OF ok, of "[]"]
    by (auto simp: norm_parts_def)
qed

lemma normalize_idem: "normalize_path fs (normalize_path fs p) = normalize_path fs p"
  by (simp add: normalize_path_render norm_parts_render norm_parts_ok)

lemma rstrip_last: "s \<noteq> [] \<Longrightarrow> last s \<noteq> c \<Longrightarrow> rstrip c s = s"
  by (cases s rule: rev_cases) (auto simp: rstrip_def)

lemma rstrip_snoc: "rstrip c (s @ [c]) = rstrip c s"
  by (simp add: rstrip_def)

lemma lstrip_Cons: "lstrip c (c # s) = lstrip c s"
  by (simp add: lstrip_def)

lemma lstrip_hd: "s \<noteq> [] \<Longrightarrow> hd s \<noteq> c \<Longrightarrow> lstrip c s = s"
  by (cases s) (auto simp: lstrip_def)

lemma join_snoc: "ps \<noteq> [] \<Longrightarrow> join sep (ps @ [p]) = join sep ps @ sep @ p"
  by (induction ps rule: list_nonempty_induct) (auto simp: join_Cons)

lemma join_hd: "ps \<noteq> [] \<Longrightarrow> hd ps \<noteq> [] \<Longrightarrow> join sep ps \<noteq> [] \<and> hd (join sep ps) = hd (hd ps)"
proof (cases ps)
  case Nil
  assume "ps \<noteq> []"
  then show ?thesis using Nil by simp
next
  case (Cons p qs)
  assume "hd ps \<noteq> []"
  then show ?thesis using Cons by (cases qs) auto
qed

lemma join_last: "ps \<noteq> [] \<Longrightarrow> last ps \<noteq> [] \<Longrightarrow> join sep ps \<noteq> [] \<and> last (join sep ps) = last (last ps)"
proof (cases ps rule: rev_cases)
  case Nil
  assume "ps \<noteq> []"
  then show ?thesis using Nil by simp
next
  case (snoc qs p)
  assume "last ps \<noteq> []"
  then show ?thesis using snoc by (cases "qs = []") (auto simp: join_snoc)
qed

lemma ok_hd: "list_all ok_part ps \<Longrightarrow> ps \<noteq> [] \<Longrightarrow> hd ps \<noteq> [] \<and> hd (hd ps) \<noteq> CHR ''/''"
  by (cases ps) (auto simp: ok_part_def, (metis list.set_sel(1))+)

lemma ok_last: "list_all ok_part ps \<Longrightarrow> ps \<noteq> [] \<Longrightarrow> last ps \<noteq> [] \<and> last (last ps) \<noteq> CHR ''/''"
  by (cases ps rule: rev_cases) (auto simp: ok_part_def, (metis last_in_set)+)

lemma strip_render:
  assumes ok: "list_all ok_part ps" and ne: "ps \<noteq> []"
  shows "strip CHR ''/'' (render ps) = join ''/'' ps"
proof -
  have h: "join ''/'' ps \<noteq> [] \<and> hd (join ''/'' ps) \<noteq> CHR ''/''"
    using join_hd[of ps "''/''"] ok_hd[OF ok ne] ne by simp
  have l: "join ''/'' ps \<noteq> [] \<and> last (join ''/'' ps) \<noteq> CHR ''/''"
    using join_last[of ps "''/''"] ok_last[OF ok ne] ne by simp
  have "lstrip CHR ''/'' (render ps) = join ''/'' ps"
    using h by (simp add: render_def lstrip_Cons lstrip_hd)
  then show ?thesis using l by (simp add: strip_def rstrip_last)
qed

lemma render_eq_root: "list_all ok_part ps \<Longrightarrow> render ps = ''/'' \<longleftrightarrow> ps = []"
  using join_eq_Nil[of ps] by (auto simp: render_def)

lemma node_ref_parts: "node_ref fs p = norm_parts fs p"
proof -
  have ok: "list_all ok_part (norm_parts fs p)" by (rule norm_parts_ok)
  show ?thesis
  proof (cases "norm_parts fs p = []")
    case True
    then show ?thesis by (simp add: node_ref_def normalize_path_render render_def)
  next
    case False
    then show ?thesis
      using render_eq_root[OF ok] strip_render[OF ok False] split_join[OF False ok_part_no_slash[OF ok]]
      by (simp add: node_ref_def normalize_path_render)
  qed
qed

lemma get_node_parts: "get_node fs p = walk (virtual_fs fs) (norm_parts fs p)"
  by (simp add: get_node_def node_ref_parts)

lemma rfind_append_slash:
  "CHR ''/'' \<notin> set p \<Longrightarrow> rfind_slash_plus1 (w @ CHR ''/'' # p) = Suc (length w)"
proof (induction w)
  case Nil
  have "rfind_slash_plus1 p = 0" using Nil by (induction p) (auto simp: Let_def)
  then show ?case by (simp add: Let_def)
next
  case (Cons a w)
  then show ?case by (simp add: Let_def)
qed

lemma render_snoc:
  "render (qs @ [p]) = (if qs = [] then CHR ''/'' # p else render qs @ CHR ''/'' # p)"
  by (auto simp: render_def join_snoc)

lemma render_last_ns: "list_all ok_part qs \<Longrightarrow> qs \<noteq> [] \<Longrightarrow> render qs \<noteq> [] \<and> last (render qs) \<noteq> CHR ''/''"
  using join_last[of qs "''/''"] ok_last[of qs] by (simp add: render_def)

lemma dirname_render:
  assumes ok: "list_all ok_part ps"
  shows "dirname (render ps) = render (butlast ps)"
proof (cases ps rule: rev_cases)
  case Nil
  then show ?thesis by (simp add: render_def dirname_def Let_def)
next
  case (snoc qs p)
  have p: "CHR ''/'' \<notin> set p" using ok snoc by (simp add: ok_part_def)
  have okq: "list_all ok_part qs" using ok snoc by simp
  show ?thesis
  proof (cases "qs = []")
    case True
    have "rfind_slash_plus1 (CHR ''/'' # p) = 1"
      using rfind_append_slash[OF p, of "[]"] by simp
    then show ?thesis using snoc True by (simp add: render_def dirname_def Let_def)
  next
    case False
    have r: "rfind_slash_plus1 (render qs @ CHR ''/'' # p) = Suc (length (render qs))"
      by (rule rfind_append_slash[OF p])
    have hd: "take (Suc (length (render qs))) (render qs @ CHR ''/'' # p) = render qs @ ''/''"
      by simp
    have nl: "render qs \<noteq> [] \<and> last (render qs) \<noteq> CHR ''/''"
      by (rule render_last_ns[OF okq False])
    have nrep: "render qs @ ''/'' \<noteq> replicate (length (render qs @ ''/'')) CHR ''/''"
    proof
      assume e: "render qs @ ''/'' = replicate (length (render qs @ ''/'')) CHR ''/''"
      have "set (render qs @ ''/'') \<subseteq> {CHR ''/''}"
        by (subst e) auto
      then have "set (render qs) \<subseteq> {CHR ''/''}" by simp
      then have "last (render qs) = CHR ''/''" using nl last_in_set[of "render qs"] by blast
      then show False using nl by simp
    qed
    have rs: "rstrip CHR ''/'' (render qs @ ''/'') = render qs"
      using rstrip_snoc[of "CHR ''/''" "render qs"] rstrip_last[of "render qs" "CHR ''/''"] nl by simp
    show ?thesis
      using snoc False r hd nrep rs
      by (simp add: render_snoc dirname_def Let_def)
  qed
qed

lemma basename_render:
  assumes ok: "list_all ok_part ps"
  shows "basename (render ps) = (if ps = [] then [] else last ps)"
proof (cases ps rule: rev_cases)
  case Nil
  then show ?thesis by (simp add: render_def basename_def Let_def)
next
  case (snoc qs p)
  have p: "CHR ''/'' \<notin> set p" using ok snoc by (simp add: ok_part_def)
  show ?thesis
    using snoc rfind_append_slash[OF p, of "[]"] rfind_append_slash[OF p, of "render qs"]
    by (auto simp: render_snoc basename_def)
qed

lemma get_parent_node_parts:
  "get_parent_node fs (normalize_path fs p) =
     (walk (virtual_fs fs) (butlast (norm_parts fs p)), butlast (norm_parts fs p),
      item_name_of (norm_parts fs p))"
proof -
  have ok: "list_all ok_part (norm_parts fs p)" by (rule norm_parts_ok)
  have okb: "list_all ok_part (butlast (norm_parts fs p))" by (rule butlast_ok[OF ok])
  have n1: "normalize_path fs (normalize_path fs p) = render (norm_parts fs p)"
    using normalize_idem[of fs p] by (simp add: normalize_path_render)
  have d: "dirname (render (norm_parts fs p)) = render (butlast (norm_parts fs p))"
    by (rule dirname_render[OF ok])
  have b: "basename (render (norm_parts fs p)) = item_name_of (norm_parts fs p)"
    using basename_render[OF ok] by (simp add: item_name_of_def)
  have r: "node_ref fs (render (butlast (norm_parts fs p))) = butlast (norm_parts fs p)"
    using norm_parts_render[OF okb, of fs] by (simp add: node_ref_parts)
  show ?thesis
    unfolding get_parent_node_def Let_def n1 d b get_node_def r ..
qed

lemma walk_append:
  "walk n (ps @ qs) = (case walk n ps of Some m \<Rightarrow> walk m qs | None \<Rightarrow> None)"
  by (induction ps arbitrary: n) (auto split: node.splits option.splits)

lemma walk_update_at:
  "walk n ps = Some m \<Longrightarrow> walk (update_at ps f n) (ps @ qs) = walk (f m) qs"
  by (induction ps arbitrary: n) (auto split: node.splits option.splits simp: update_conv')

lemma update_at_None: "walk n ps = None \<Longrightarrow> update_at ps f n = n"
  by (induction ps arbitrary: n) (auto split: node.splits option.splits simp: update_triv)

lemma files_child: "map_of ch p = Some c \<Longrightarrow> files c \<subseteq> files (Directory cr mo pe ch)"
  by (auto dest!: map_of_SomeD)

lemma files_walk: "walk n ps = Some m \<Longrightarrow> files m \<subseteq> files n"
proof (induction ps arbitrary: n)
  case Nil
  then show ?case by simp
next
  case (Cons p ps)
  then obtain cr mo pe ch c where n: "n = Directory cr mo pe ch" and c: "map_of ch p = Some c"
    and w: "walk c ps = Some m"
    by (cases n) (auto split: option.splits)
  show ?case using Cons.IH[OF w] files_child[OF c, of cr mo pe] n by blast
qed

lemma set_update_subset: "set (AList.update k v al) \<subseteq> insert (k, v) (set al)"
  by (induction al) auto

lemma set_delete_subset: "set (AList.delete k al) \<subseteq> set al"
  by (auto simp: AList.delete_eq)

lemma files_update_at:
  "walk n ps = Some m \<Longrightarrow> files (update_at ps f n) \<subseteq> files n \<union> files (f m)"
proof (induction ps arbitrary: n)
  case Nil
  then show ?case by simp
next
  case (Cons p ps)
  then obtain cr mo pe ch c where n: "n = Directory cr mo pe ch" and c: "map_of ch p = Some c"
    and w: "walk c ps = Some m"
    by (cases n) (auto split: option.splits)
  have ih: "files (update_at ps f c) \<subseteq> files c \<union> files (f m)" by (rule Cons.IH[OF w])
  have "files (Directory cr mo pe (AList.update p (update_at ps f c) ch))
          \<subseteq> files (update_at ps f c) \<union> files (Directory cr mo pe ch)"
    using set_update_subset[of p "update_at ps f c" ch] by fastforce
  then show ?case using ih files_child[OF c, of cr mo pe] n c by auto
qed

lemma files_set_child: "files (set_child name v d) \<subseteq> files d \<union> files v"
  using set_update_subset by (cases d) fastforce+

lemma files_del_child: "files (del_child name d) \<subseteq> files d"
  using set_delete_subset by (cases d) fastforce+

lemma files_set_modified [simp]: "files (set_modified t n) = files n"
  by (cases n) auto

lemma files_set_created [simp]: "files (set_created t n) = files n"
  by (cases n) auto

lemma norm_parts_update_node [simp]: "norm_parts (update_node fs r f) p = norm_parts fs p"
  by (simp add: norm_parts_def update_node_def)

lemma virtual_fs_update_node [simp]:
  "virtual_fs (update_node fs r f) = update_at r f (virtual_fs fs)"
  by (simp add: update_node_def)

lemma create_file_parts:
  "create_file fs now p c =
     (case walk (virtual_fs fs) (butlast (norm_parts fs p)) of
        Some (Directory cr mo pe ch) \<Rightarrow>
          (update_node fs (butlast (norm_parts fs p))
             (set_child (item_name_of (norm_parts fs p))
                (File c now now ''-rw-r--r--'' (length c))), True)
      | _ \<Rightarrow> (fs, False))"
  unfolding create_file_def Let_def get_parent_node_parts
  by (simp split: option.splits node.splits)

lemma write_file_parts:
  "write_file fs now p c =
     (case walk (virtual_fs fs) (norm_parts fs p) of
        Some (File co cr mo pe sz) \<Rightarrow>
          (update_node fs (norm_parts fs p) (\<lambda>_. File c cr now pe (length c)), True)
      | _ \<Rightarrow> create_file fs now p c)"
  unfolding write_file_def get_node_parts node_ref_parts ..

lemma walk_butlast_dir:
  assumes "walk n ps = Some m" "ps \<noteq> []"
  shows "\<exists>cr mo pe ch. walk n (butlast ps) = Some (Directory cr mo pe ch)
           \<and> map_of ch (last ps) = Some m"
proof -
  have "walk n (butlast ps @ [last ps]) = Some m" using assms by simp
  then show ?thesis
    unfolding walk_append by (auto split: option.splits node.splits)
qed

lemma walk_set_child:
  "walk (set_child name v (Directory cr mo pe ch)) (name # qs) = walk v qs"
  by (simp add: update_conv')

lemma create_file_result:
  assumes "create_file fs now p c = (fs', True)" "norm_parts fs p \<noteq> []"
  shows "walk (virtual_fs fs') (norm_parts fs p @ qs) = walk (File c now now ''-rw-r--r--'' (length c)) qs"
proof -
  let ?P = "norm_parts fs p"
  obtain cr mo pe ch where par: "walk (virtual_fs fs) (butlast ?P) = Some (Directory cr mo pe ch)"
    using assms(1) unfolding create_file_parts by (auto split: option.splits node.splits)
  have fs': "fs' = update_node fs (butlast ?P)
             (set_child (last ?P) (File c now now ''-rw-r--r--'' (length c)))"
    using assms par unfolding create_file_parts by (simp add: item_name_of_def)
  have "walk (virtual_fs fs') (butlast ?P @ (last ?P # qs))
          = walk (set_child (last ?P) (File c now now ''-rw-r--r--'' (length c))
                    (Directory cr mo pe ch)) (last ?P # qs)"
    unfolding fs' virtual_fs_update_node by (rule walk_update_at[OF par])
  also have "\<dots> = walk (File c now now ''-rw-r--r--'' (length c)) qs"
    by (rule walk_set_child)
  finally have "walk (virtual_fs fs') ((butlast ?P @ [last ?P]) @ qs)
                  = walk (File c now now ''-rw-r--r--'' (length c)) qs"
    by simp
  moreover have "butlast ?P @ [last ?P] = ?P" using assms(2) by simp
  ultimately show ?thesis by (simp only:)
qed


lemma current_path_create_file: "create_file fs now p c = (fs', b) \<Longrightarrow> current_path fs' = current_path fs"
  unfolding create_file_parts by (auto split: option.splits node.splits simp: update_node_def)


lemma norm_parts_cong: "current_path fs' = current_path fs \<Longrightarrow> norm_parts fs' p = norm_parts fs p"
  by (simp add: norm_parts_def)

lemma normalize_path_root: "normalize_path fs p = ''/'' \<longleftrightarrow> norm_parts fs p = []"
  using render_eq_root[OF norm_parts_ok[of fs p]] by (simp add: normalize_path_render)


lemma norm_parts_normalize [simp]: "norm_parts fs (normalize_path fs p) = norm_parts fs p"
  by (simp add: normalize_path_render norm_parts_render norm_parts_ok)

lemma copy_item_parts:
  "copy_item fs now s d =
     (case walk (virtual_fs fs) (norm_parts fs s) of
        Some n \<Rightarrow>
          (case walk (virtual_fs fs) (butlast (norm_parts fs d)) of
             Some (Directory cr mo pe ch) \<Rightarrow>
               (update_node fs (butlast (norm_parts fs d))
                  (set_child (item_name_of (norm_parts fs d))
                     (set_modified now (set_created now n))), True)
           | _ \<Rightarrow> (fs, False))
      | None \<Rightarrow> (fs, False))"
  unfolding copy_item_def Let_def get_parent_node_parts
  by (simp add: get_node_parts split: option.splits node.splits)

lemma move_item_parts:
  "move_item fs now s d =
     (case walk (virtual_fs fs) (butlast (norm_parts fs s)) of
        Some (Directory _ _ _ src_ch) \<Rightarrow>
          (case walk (virtual_fs fs) (butlast (norm_parts fs d)) of
             Some (Directory _ _ _ _) \<Rightarrow>
               (case map_of src_ch (item_name_of (norm_parts fs s)) of
                  Some item \<Rightarrow>
                    (let fs1 = update_node fs (butlast (norm_parts fs d))
                                 (set_child (item_name_of (norm_parts fs d))
                                    (set_modified now item))
                     in (if take (Suc (length (butlast (norm_parts fs d))))
                               (butlast (norm_parts fs s))
                            = butlast (norm_parts fs d) @ [item_name_of (norm_parts fs d)]
                         then fs1
                         else update_node fs1 (butlast (norm_parts fs s))
                                (del_child (item_name_of (norm_parts fs s))), True))
                | None \<Rightarrow> (fs, False))
           | _ \<Rightarrow> (fs, False))
      | _ \<Rightarrow> (fs, False))"
  unfolding move_item_def Let_def get_parent_node_parts
  by (simp split: option.splits node.splits)

lemma files_update_set_child:
  assumes "walk n r = Some m" "files v \<subseteq> X" "files n \<subseteq> X"
  shows "files (update_at r (set_child name v) n) \<subseteq> X"
  using files_update_at[OF assms(1), of "set_child name v"] files_set_child[of name v m]
    files_walk[OF assms(1)] assms(2,3) by blast

lemma files_update_del_child:
  "files (update_at r (del_child name) n) \<subseteq> files n"
proof (cases "walk n r")
  case None
  then show ?thesis by (simp add: update_at_None)
next
  case (Some m)
  show ?thesis
    using files_update_at[OF Some, of "del_child name"] files_del_child[of name m]
      files_walk[OF Some] by blast
qed

lemma files_create_file:
  "files (virtual_fs (fst (create_file fs now p c))) \<subseteq> insert (c, length c) (files (virtual_fs fs))"
proof (cases "\<exists>cr mo pe ch. walk (virtual_fs fs) (butlast (norm_parts fs p)) = Some (Directory cr mo pe ch)")
  case True
  then obtain cr mo pe ch where
    par: "walk (virtual_fs fs) (butlast (norm_parts fs p)) = Some (Directory cr mo pe ch)"
    by blast
  have "files (update_at (butlast (norm_parts fs p))
                 (set_child (item_name_of (norm_parts fs p)) (File c now now ''-rw-r--r--'' (length c)))
                 (virtual_fs fs)) \<subseteq> insert (c, length c) (files (virtual_fs fs))"
    by (rule files_update_set_child[OF par]) auto
  then show ?thesis unfolding create_file_parts using par by simp
next
  case False
  then have "create_file fs now p c = (fs, False)"
    unfolding create_file_parts by (auto split: option.splits node.splits)
  then show ?thesis by auto
qed

lemma files_write_file:
  "files (virtual_fs (fst (write_file fs now p c))) \<subseteq> insert (c, length c) (files (virtual_fs fs))"
proof (cases "\<exists>co cr mo pe sz. walk (virtual_fs fs) (norm_parts fs p) = Some (File co cr mo pe sz)")
  case True
  then obtain co cr mo pe sz where f: "walk (virtual_fs fs) (norm_parts fs p) = Some (File co cr mo pe sz)"
    by blast
  show ?thesis
    using files_update_at[OF f, of "\<lambda>_. File c cr now pe (length c)"] f
    unfolding write_file_parts by auto
next
  case False
  then have "write_file fs now p c = create_file fs now p c"
    unfolding write_file_parts by (auto split: option.splits node.splits)
  then show ?thesis using files_create_file by simp
qed

lemma files_copy_item:
  "files (virtual_fs (fst (copy_item fs now s d))) \<subseteq> files (virtual_fs fs)"
proof (cases "\<exists>n cr mo pe ch. walk (virtual_fs fs) (norm_parts fs s) = Some n \<and>
     walk (virtual_fs fs) (butlast (norm_parts fs d)) = Some (Directory cr mo pe ch)")
  case True
  then obtain n cr mo pe ch where
    src: "walk (virtual_fs fs) (norm_parts fs s) = Some n" and
    par: "walk (virtual_fs fs) (butlast (norm_parts fs d)) = Some (Directory cr mo pe ch)"
    by blast
  have "files (update_at (butlast (norm_parts fs d))
                 (set_child (item_name_of (norm_parts fs d)) (set_modified now (set_created now n)))
                 (virtual_fs fs)) \<subseteq> files (virtual_fs fs)"
    using files_walk[OF src] by (intro files_update_set_child[OF par]) auto
  then show ?thesis unfolding copy_item_parts using src par by simp
next
  case False
  then have "copy_item fs now s d = (fs, False)"
    unfolding copy_item_parts by (auto split: option.splits node.splits)
  then show ?thesis by auto
qed

lemma files_move_item:
  "files (virtual_fs (fst (move_item fs now s d))) \<subseteq> files (virtual_fs fs)"
proof -
  { fix cr mo pe ch item r name n
    assume sp: "walk (virtual_fs fs) (butlast (norm_parts fs s)) = Some (Directory cr mo pe ch)"
       and it: "map_of ch (item_name_of (norm_parts fs s)) = Some item"
       and dp: "walk (virtual_fs fs) r = Some n"
    have "files item \<subseteq> files (virtual_fs fs)"
      using files_walk[OF sp] files_child[OF it, of cr mo pe] by blast
    then have "files (update_at r (set_child name (set_modified now item)) (virtual_fs fs))
                 \<subseteq> files (virtual_fs fs)"
      by (intro files_update_set_child[OF dp]) auto
  } note step1 = this
  show ?thesis
    unfolding move_item_parts Let_def
    by (auto split: option.splits node.splits dest!: step1
        dest: subsetD[OF files_update_del_child])
qed

lemma sizes_ok_subset: "files n' \<subseteq> insert (c, length c) (files n) \<Longrightarrow> sizes_ok n \<Longrightarrow> sizes_ok n'"
  by (auto simp: sizes_ok_def)

lemma sizes_ok_subset': "files n' \<subseteq> files n \<Longrightarrow> sizes_ok n \<Longrightarrow> sizes_ok n'"
  by (auto simp: sizes_ok_def)

text \<open>
  Hence a tree in which every \<open>size\<close> is the length of its content stays so under each of
  the four operations.
\<close>

lemma sizes_ok_preserved:
  "sizes_ok (virtual_fs fs) \<Longrightarrow>
     sizes_ok (virtual_fs (fst (write_file fs now p c)))
   \<and> sizes_ok (virtual_fs (fst (create_file fs now p c)))
   \<and> sizes_ok (virtual_fs (fst (copy_item fs now p q)))
   \<and> sizes_ok (virtual_fs (fst (move_item fs now p q)))"
  using sizes_ok_subset[OF files_write_file[of fs now p c]]
    sizes_ok_subset[OF files_create_file[of fs now p c]]
    sizes_ok_subset'[OF files_copy_item[of fs now p q]]
    sizes_ok_subset'[OF files_move_item[of fs now p q]]
  by blast


section \<open>Normalised paths\<close>

lemmas str_defs = startswith_def endswith_def os_path_join_def lstrip_def rstrip_def strip_def
  dirname_def basename_def

lemma dotdot_not_in_render:
  assumes "list_all ok_part ps"
  shows "''..'' \<notin> set (split CHR ''/'' (render ps))"
proof -
  have "''..'' \<notin> set ps" using assms by (auto simp: list_all_iff ok_part_def)
  then show ?thesis using split_render[OF assms] by auto
qed

lemma norm_parts_clamp: "norm_parts fs (''/../'' @ q) = norm_parts fs (''/'' @ q)"
  by (simp add: norm_parts_def startswith_def)

text \<open>
  Claim C4. Path normalisation is idempotent, for every file system state (hence every
  current directory) and every path string. The result is an absolute path none of whose
  components is \<open>..\<close>; a \<open>..\<close> met at the root is dropped, so \<open>/../q\<close> normalises like
  \<open>/q\<close> and \<open>/..\<close> to \<open>/\<close>. \<^const>\<open>normalize_path\<close> has no failing branch: the only
  partial operation of the source, \<open>parts.pop()\<close>, is guarded by \<open>parts\<close> being non-empty.
\<close>

theorem normalize_path_idempotent:
  "normalize_path fs (normalize_path fs p) = normalize_path fs p
   \<and> startswith (normalize_path fs p) ''/''
   \<and> ''..'' \<notin> set (split CHR ''/'' (normalize_path fs p))
   \<and> normalize_path fs (''/../'' @ q) = normalize_path fs (''/'' @ q)
   \<and> normalize_path fs ''/..'' = ''/''"
proof -
  have a: "startswith (normalize_path fs p) ''/''"
    by (simp add: normalize_path_render render_def startswith_def)
  have b: "''..'' \<notin> set (split CHR ''/'' (normalize_path fs p))"
    unfolding normalize_path_render by (rule dotdot_not_in_render[OF norm_parts_ok])
  have c: "normalize_path fs (''/../'' @ q) = normalize_path fs (''/'' @ q)"
    unfolding normalize_path_render norm_parts_clamp ..
  have d: "normalize_path fs ''/..'' = ''/''"
    by (simp add: normalize_path_def startswith_def)
  show ?thesis using normalize_idem a b c d by blast
qed

text \<open>The theorem at concrete paths of the seeded file system (current directory \<open>/home/user\<close>).\<close>

theorem normalize_path_idempotent_witness:
  "normalize_path initial_fs ''../../../x/./y/..'' = ''/x''
   \<and> normalize_path initial_fs ''/x'' = ''/x''
   \<and> normalize_path initial_fs ''/../etc'' = ''/etc''"
  using normalize_path_idempotent[of initial_fs "''../../../x/./y/..''" "''etc''"]
  by (simp add: normalize_path_def str_defs initial_fs_def)

section \<open>Writing and reading files\<close>

lemma parts_abs1: "norm_parts fs (CHR ''/'' # a) = normalize_loop [] (split CHR ''/'' a)"
  by (simp add: norm_parts_def startswith_def)

lemma is_directory_parts:
  "is_directory fs p = (case walk (virtual_fs fs) (norm_parts fs p) of Some n \<Rightarrow> is_dir_node n | None \<Rightarrow> False)"
  by (simp add: is_directory_def get_node_parts)

lemma exists_parts: "exists fs p = (walk (virtual_fs fs) (norm_parts fs p) \<noteq> None)"
  by (simp add: exists_def get_node_parts)

lemma read_file_parts:
  "read_file fs p = (case walk (virtual_fs fs) (norm_parts fs p) of Some (File co _ _ _ _) \<Rightarrow> Some co | _ \<Rightarrow> None)"
  by (simp add: read_file_def get_node_parts)

lemmas parts_simps = write_file_parts create_file_parts copy_item_parts move_item_parts
  is_directory_parts exists_parts read_file_parts get_node_parts parts_abs1 item_name_of_def
  update_node_def

lemma files_tree_fs: "files (virtual_fs tree_fs) = {(''bee'', 3), (''a'', 1)}"
  by (auto simp: tree_fs_def)

lemma sizes_ok_tree_fs: "sizes_ok (virtual_fs tree_fs)"
  by (simp add: sizes_ok_def files_tree_fs)

text \<open>The \<open>size\<close> fields of the three seed files are not the lengths of their contents.\<close>

lemma seed_sizes: "\<not> sizes_ok (virtual_fs initial_fs)"
  by (simp add: sizes_ok_def initial_fs_def seed_dir_def)

lemma is_directory_walk:
  "is_directory fs p \<Longrightarrow> \<exists>cr mo pe ch. walk (virtual_fs fs) (norm_parts fs p) = Some (Directory cr mo pe ch)"
  unfolding is_directory_parts by (auto split: option.splits elim: is_dir_node.elims)

text \<open>
  Claim C9, amended. For every path that exists, is a directory and does not normalise to
  the root, \<open>write_file\<close> returns \<open>True\<close> and leaves at that path a fresh file node with
  the given content; every path that led through the former directory to one of its
  descendants no longer exists.
\<close>

theorem write_file_on_directory:
  assumes "is_directory fs p" and "normalize_path fs p \<noteq> ''/''"
  shows "snd (write_file fs now p c) = True
     \<and> get_node (fst (write_file fs now p c)) p = Some (File c now now ''-rw-r--r--'' (length c))
     \<and> read_file (fst (write_file fs now p c)) p = Some c
     \<and> (\<forall>q rest. node_ref fs q = node_ref fs p @ rest \<and> rest \<noteq> []
            \<longrightarrow> \<not> exists (fst (write_file fs now p c)) q)"
proof -
  let ?P = "norm_parts fs p"
  have ne: "?P \<noteq> []" using assms(2) by (simp add: normalize_path_root)
  obtain cr mo pe ch where d: "walk (virtual_fs fs) ?P = Some (Directory cr mo pe ch)"
    using is_directory_walk[OF assms(1)] by blast
  obtain cr' mo' pe' ch' where par: "walk (virtual_fs fs) (butlast ?P) = Some (Directory cr' mo' pe' ch')"
    using walk_butlast_dir[OF d ne] by blast
  have wc: "write_file fs now p c = create_file fs now p c"
    unfolding write_file_parts using d by simp
  obtain fs' where c: "create_file fs now p c = (fs', True)"
    unfolding create_file_parts using par by simp
  have cp: "norm_parts fs' = norm_parts fs"
    using norm_parts_cong[OF current_path_create_file[OF c]] by auto
  have w: "\<And>qs. walk (virtual_fs fs') (?P @ qs) = walk (File c now now ''-rw-r--r--'' (length c)) qs"
    by (rule create_file_result[OF c ne])
  have g: "get_node fs' p = Some (File c now now ''-rw-r--r--'' (length c))"
    using w[of "[]"] by (simp add: get_node_parts cp)
  have u: "\<not> exists fs' q" if "node_ref fs q = node_ref fs p @ rest" "rest \<noteq> []" for q rest
  proof -
    have "norm_parts fs q = ?P @ rest" using that(1) by (simp add: node_ref_parts)
    then have "walk (virtual_fs fs') (norm_parts fs' q) = None"
      using w[of rest] that(2) by (cases rest) (auto simp: cp)
    then show ?thesis by (simp add: exists_parts)
  qed
  show ?thesis using wc c g u by (simp add: read_file_def)
qed

text \<open>The theorem at the directory \<open>/docs\<close> of the small tree and its child \<open>b.txt\<close>.\<close>

theorem write_file_on_directory_witness:
  "is_directory tree_fs ''/docs'' \<and> normalize_path tree_fs ''/docs'' \<noteq> ''/''
   \<and> node_ref tree_fs ''/docs/b.txt'' = node_ref tree_fs ''/docs'' @ [''b.txt'']
   \<and> exists tree_fs ''/docs/b.txt''
   \<and> snd (write_file tree_fs ''t1'' ''/docs'' ''hello'') = True
   \<and> read_file (fst (write_file tree_fs ''t1'' ''/docs'' ''hello'')) ''/docs'' = Some ''hello''
   \<and> \<not> exists (fst (write_file tree_fs ''t1'' ''/docs'' ''hello'')) ''/docs/b.txt''"
proof -
  have d: "is_directory tree_fs ''/docs''" by (simp add: parts_simps tree_fs_def)
  have r: "normalize_path tree_fs ''/docs'' \<noteq> ''/''" by (simp add: normalize_path_root parts_abs1)
  have n: "node_ref tree_fs ''/docs/b.txt'' = node_ref tree_fs ''/docs'' @ [''b.txt'']"
    by (simp add: node_ref_parts parts_abs1)
  have e: "exists tree_fs ''/docs/b.txt''" by (simp add: parts_simps tree_fs_def)
  show ?thesis
    using write_file_on_directory[OF d r, of "''t1''" "''hello''"] d r n e by blast
qed

text \<open>
  At the root the claim fails: \<open>write_file('/', c)\<close> returns \<open>True\<close>, yet \<open>/\<close> is still
  the directory and its descendants are still reachable.
\<close>

theorem write_file_on_root_counterexample:
  "is_directory initial_fs ''/''
   \<and> snd (write_file initial_fs ''2024-01-02 00:00:00'' ''/'' ''abc'') = True
   \<and> is_directory (fst (write_file initial_fs ''2024-01-02 00:00:00'' ''/'' ''abc'')) ''/''
   \<and> read_file (fst (write_file initial_fs ''2024-01-02 00:00:00'' ''/'' ''abc'')) ''/'' = None
   \<and> exists (fst (write_file initial_fs ''2024-01-02 00:00:00'' ''/'' ''abc''))
        ''/home/user/documents/readme.txt''"
  by (simp add: parts_simps initial_fs_def seed_dir_def)

section \<open>Directory listings\<close>

lemma list_directory_parts:
  "list_directory fs p =
     (case walk (virtual_fs fs) (norm_parts fs p) of
        Some (Directory _ _ _ ch) \<Rightarrow> sort_key list_key (map display_name ch)
      | _ \<Rightarrow> [])"
  by (simp add: list_directory_def get_node_parts)

lemma create_directory_parts:
  "create_directory fs now p =
     (case walk (virtual_fs fs) (butlast (norm_parts fs p)) of
        Some (Directory cr mo pe ch) \<Rightarrow>
          (if map_of ch (item_name_of (norm_parts fs p)) = None
           then (update_node fs (butlast (norm_parts fs p))
                   (set_child (item_name_of (norm_parts fs p))
                      (Directory now now ''drwxr-xr-x'' [])), True)
           else (fs, False))
      | _ \<Rightarrow> (fs, False))"
  unfolding create_directory_def Let_def get_parent_node_parts
  by (simp split: option.splits node.splits)

lemma dotted_children:
  "get_node dotted_fs ''/tmp'' = Some (Directory ''t0'' ''t0'' ''drwxrwxrwx''
     [(''a'', Directory ''t1'' ''t1'' ''drwxr-xr-x'' []),
      (''a.b'', Directory ''t2'' ''t2'' ''drwxr-xr-x'' [])])"
  by (simp add: dotted_fs_def create_directory_parts parts_simps tree_fs_def)

lemma ex1: "list_directory tree_fs ''/docs'' = [''A.txt'', ''b.txt'', ''z/'']"
  by (simp add: list_directory_parts parts_abs1 tree_fs_def display_name_def list_key_def
      endswith_def lower_def lower_char_def upper_letters_def lower_letters_def less_eq_char_def less_char_def)

lemma ex2: "list_directory dotted_fs ''/tmp'' = [''a.b/'', ''a/'']"
  using dotted_children
  by (simp add: list_directory_def display_name_def list_key_def
      endswith_def lower_def lower_char_def upper_letters_def lower_letters_def less_eq_char_def less_char_def)

lemma ex3: "map display_name (sort_key spec_key
     [(''a'', Directory ''t1'' ''t1'' ''drwxr-xr-x'' []),
      (''a.b'', Directory ''t2'' ''t2'' ''drwxr-xr-x'' [])]) = [''a/'', ''a.b/'']"
  by (simp add: spec_key_def display_name_def lower_def lower_char_def upper_letters_def lower_letters_def less_eq_char_def less_char_def)

lemma ex4:
  "list_directory accent_fs ''/'' = [''z.txt'', CHR 0xE0 # ''.txt'', CHR 0xC9 # ''.txt'']"
  by (simp add: list_directory_parts parts_abs1 accent_fs_def display_name_def list_key_def
      endswith_def
      lower_def lower_char_def upper_letters_def lower_letters_def less_eq_char_def less_char_def)

lemma ex5: "map item_name (get_detailed_listing dotted_fs ''/tmp'') = [''a'', ''a.b'']"
  using dotted_children
  by (simp add: get_detailed_listing_def detailed_item_of_def detailed_key_def
      lower_def lower_char_def upper_letters_def lower_letters_def less_eq_char_def less_char_def)

lemma sorted_pair_const:
  fixes g :: "'a \<Rightarrow> 'k::linorder"
  assumes "sorted (map g l)" "\<forall>x\<in>set l. b x = c"
  shows "sorted (map (\<lambda>x. (b x :: bool, g x)) l)"
  using assms by (induction l) (auto simp: less_eq_prod_simp)

lemma filter_stable_pair:
  fixes g :: "'a \<Rightarrow> 'k::linorder"
  shows "filter (\<lambda>x. c = b x \<and> g k = g x) (sort_key g (filter (\<lambda>x. b x = d) xs))
       = (if c = d then filter (\<lambda>x. b x = d \<and> g k = g x) xs else [])"
proof -
  have "filter (\<lambda>x. c = b x \<and> g k = g x) (sort_key g (filter (\<lambda>x. b x = d) xs))
      = filter (\<lambda>x. c = b x) (filter (\<lambda>y. g y = g k) (sort_key g (filter (\<lambda>x. b x = d) xs)))"
    by (auto simp: filter_filter intro: filter_cong)
  also have "\<dots> = filter (\<lambda>x. c = b x) (filter (\<lambda>y. g y = g k) (filter (\<lambda>x. b x = d) xs))"
    by (simp only: sort_key_stable)
  also have "\<dots> = (if c = d then filter (\<lambda>x. b x = d \<and> g k = g x) xs else [])"
    by (auto intro: filter_cong simp: filter_empty_conv)
  finally show ?thesis .
qed

lemma sort_key_pair_partition:
  fixes g :: "'a \<Rightarrow> 'k::linorder" and b :: "'a \<Rightarrow> bool"
  shows "sort_key (\<lambda>x. (b x, g x)) xs
       = sort_key g (filter (\<lambda>x. b x = False) xs) @ sort_key g (filter (\<lambda>x. b x = True) xs)"
proof (rule properties_for_sort_key)
  show "mset (sort_key g (filter (\<lambda>x. b x = False) xs) @ sort_key g (filter (\<lambda>x. b x = True) xs)) = mset xs"
    by (induction xs) auto
next
  fix k
  show "filter (\<lambda>x. (b k, g k) = (b x, g x))
          (sort_key g (filter (\<lambda>x. b x = False) xs) @ sort_key g (filter (\<lambda>x. b x = True) xs))
        = filter (\<lambda>x. (b k, g k) = (b x, g x)) xs"
    using filter_stable_pair[of "b k" b g k False xs] filter_stable_pair[of "b k" b g k True xs]
    by (cases "b k") (auto intro: filter_cong)
next
  have a: "sorted (map (\<lambda>x. (b x, g x)) (sort_key g (filter (\<lambda>x. b x = False) xs)))"
    by (rule sorted_pair_const[where c = False]) auto
  have c: "sorted (map (\<lambda>x. (b x, g x)) (sort_key g (filter (\<lambda>x. b x = True) xs)))"
    by (rule sorted_pair_const[where c = True]) auto
  show "sorted (map (\<lambda>x. (b x, g x))
          (sort_key g (filter (\<lambda>x. b x = False) xs) @ sort_key g (filter (\<lambda>x. b x = True) xs)))"
    using a c by (auto simp: sorted_append less_eq_prod_simp)
qed

lemma display_split:
  assumes "\<forall>e\<in>set ch. is_file_node (snd e) \<longrightarrow> \<not> endswith (fst e) ''/''"
  shows "filter (\<lambda>x. endswith x ''/'' = False) (map display_name ch)
           = map fst (filter (\<lambda>e. is_file_node (snd e)) ch)
       \<and> filter (\<lambda>x. endswith x ''/'' = True) (map display_name ch)
           = map (\<lambda>e. fst e @ ''/'') (filter (\<lambda>e. is_dir_node (snd e)) ch)"
  using assms
proof (induction ch)
  case Nil
  then show ?case by simp
next
  case (Cons e ch)
  have sl: "endswith (fst e @ ''/'') ''/''" by (simp add: endswith_def)
  show ?case using Cons sl by (cases "snd e") (auto simp: display_name_def)
qed

text \<open>
  What \<open>list_directory\<close> returns for every existing directory: the display names of its
  children (a directory's name with \<open>/\<close> appended), sorted ascending by the key (display
  name ends with \<open>/\<close>, lower-cased display name). When no file name ends with \<open>/\<close>,
  that is the file names in case-insensitive order followed by the directory names, the
  latter compared with their \<open>/\<close> suffix.
\<close>

lemma list_directory_sorted:
  assumes "get_node fs p = Some (Directory cr mo pe ch)"
  shows "mset (list_directory fs p) = mset (map display_name ch)
     \<and> sorted (map list_key (list_directory fs p))
     \<and> ((\<forall>e\<in>set ch. is_file_node (snd e) \<longrightarrow> \<not> endswith (fst e) ''/'') \<longrightarrow>
          list_directory fs p
            = sort_key lower (map fst (filter (\<lambda>e. is_file_node (snd e)) ch))
              @ sort_key lower (map (\<lambda>e. fst e @ ''/'') (filter (\<lambda>e. is_dir_node (snd e)) ch)))
"
proof -
  have l: "list_directory fs p = sort_key list_key (map display_name ch)"
    using assms by (simp add: list_directory_def)
  have k: "list_key = (\<lambda>x. (endswith x ''/'', lower x))"
    by (auto simp: list_key_def)
  have part: "list_directory fs p
      = sort_key lower (filter (\<lambda>x. endswith x ''/'' = False) (map display_name ch))
        @ sort_key lower (filter (\<lambda>x. endswith x ''/'' = True) (map display_name ch))"
    unfolding l k by (rule sort_key_pair_partition)
  have m: "mset (list_directory fs p) = mset (map display_name ch)" by (simp add: l)
  have s: "sorted (map list_key (list_directory fs p))" by (simp add: l)
  have d: "list_directory fs p
            = sort_key lower (map fst (filter (\<lambda>e. is_file_node (snd e)) ch))
              @ sort_key lower (map (\<lambda>e. fst e @ ''/'') (filter (\<lambda>e. is_dir_node (snd e)) ch))"
    if "\<forall>e\<in>set ch. is_file_node (snd e) \<longrightarrow> \<not> endswith (fst e) ''/''"
    using part display_split[OF that] by (simp only:)
  show ?thesis using m s d by blast
qed

text \<open>
  At \<open>/docs\<close> of the small tree, whose two files precede its directory.
\<close>

lemma list_directory_sorted_example:
  "get_node tree_fs ''/docs'' = Some (Directory ''t0'' ''t0'' ''drwxr-xr-x''
           [(''b.txt'', File ''bee'' ''t0'' ''t0'' ''-rw-r--r--'' 3),
            (''A.txt'', File ''a'' ''t0'' ''t0'' ''-rw-r--r--'' 1),
            (''z'', Directory ''t0'' ''t0'' ''drwxr-xr-x'' [])])
   \<and> mset (list_directory tree_fs ''/docs'') = mset [''b.txt'', ''A.txt'', ''z/'']
   \<and> sorted (map list_key (list_directory tree_fs ''/docs''))"
proof -
  have g: "get_node tree_fs ''/docs'' = Some (Directory ''t0'' ''t0'' ''drwxr-xr-x''
           [(''b.txt'', File ''bee'' ''t0'' ''t0'' ''-rw-r--r--'' 3),
            (''A.txt'', File ''a'' ''t0'' ''t0'' ''-rw-r--r--'' 1),
            (''z'', Directory ''t0'' ''t0'' ''drwxr-xr-x'' [])])"
    by (simp add: parts_simps tree_fs_def)
  note t = list_directory_sorted[OF g]
  have "mset (list_directory tree_fs ''/docs'') = mset [''b.txt'', ''A.txt'', ''z/'']"
    using t by (simp add: display_name_def)
  then show ?thesis using g t by blast
qed

text \<open>
  Claim C6. The directory holding the files \<open>b.txt\<close> and \<open>A.txt\<close> and the subdirectory
  \<open>z\<close> lists as \<open>["A.txt", "b.txt", "z/"]\<close>, as claimed. The order is not always the
  one by \<open>(is_directory, lowercase name)\<close>: \<open>list_directory\<close> compares the display names,
  the \<open>/\<close> suffix of a directory included, and \<open>.\<close> sorts before \<open>/\<close>. After
  \<open>mkdir /tmp/a\<close> and \<open>mkdir /tmp/a.b\<close> the listing of \<open>/tmp\<close> is
  \<open>["a.b/", "a/"]\<close>, where the claimed key puts \<open>a\<close> first, as does
  \<open>get_detailed_listing\<close>, which compares the names themselves.
\<close>

theorem list_directory_order:
  "list_directory tree_fs ''/docs'' = [''A.txt'', ''b.txt'', ''z/'']
   \<and> get_node dotted_fs ''/tmp'' = Some (Directory ''t0'' ''t0'' ''drwxrwxrwx''
        [(''a'', Directory ''t1'' ''t1'' ''drwxr-xr-x'' []),
         (''a.b'', Directory ''t2'' ''t2'' ''drwxr-xr-x'' [])])
   \<and> list_directory dotted_fs ''/tmp'' = [''a.b/'', ''a/'']
   \<and> map display_name (sort_key spec_key
        [(''a'', Directory ''t1'' ''t1'' ''drwxr-xr-x'' []),
         (''a.b'', Directory ''t2'' ''t2'' ''drwxr-xr-x'' [])]) = [''a/'', ''a.b/'']
   \<and> spec_key (''a'', Directory ''t1'' ''t1'' ''drwxr-xr-x'' [])
        < spec_key (''a.b'', Directory ''t2'' ''t2'' ''drwxr-xr-x'' [])
   \<and> map item_name (get_detailed_listing dotted_fs ''/tmp'') = [''a'', ''a.b'']"
  using ex1 dotted_children ex2 ex3 ex5
  by (simp add: spec_key_def lower_def lower_char_def upper_letters_def lower_letters_def
      less_eq_char_def less_char_def)

text \<open>
  Hence the listing of \<open>/tmp\<close> differs from the one in the claimed order and from the names
  of the detailed listing with \<open>/\<close> appended.
\<close>

theorem list_directory_order_witness:
  "list_directory dotted_fs ''/tmp''
     \<noteq> map display_name (sort_key spec_key
        [(''a'', Directory ''t1'' ''t1'' ''drwxr-xr-x'' []),
         (''a.b'', Directory ''t2'' ''t2'' ''drwxr-xr-x'' [])])
   \<and> list_directory dotted_fs ''/tmp''
     \<noteq> map (\<lambda>x. item_name x @ ''/'') (get_detailed_listing dotted_fs ''/tmp'')"
proof -
  note t = list_directory_order
  have a: "list_directory dotted_fs ''/tmp'' = [''a.b/'', ''a/'']" using t by blast
  have b: "map display_name (sort_key spec_key
        [(''a'', Directory ''t1'' ''t1'' ''drwxr-xr-x'' []),
         (''a.b'', Directory ''t2'' ''t2'' ''drwxr-xr-x'' [])]) = [''a/'', ''a.b/'']"
    using t by blast
  have c: "map item_name (get_detailed_listing dotted_fs ''/tmp'') = [''a'', ''a.b'']"
    using t by blast
  have d: "map (\<lambda>x. item_name x @ ''/'') (get_detailed_listing dotted_fs ''/tmp'')
             = map (\<lambda>n. n @ ''/'') (map item_name (get_detailed_listing dotted_fs ''/tmp''))"
    by simp
  show ?thesis unfolding a b d c by simp
qed

text \<open>
  Names beyond ASCII are lower-cased too: \<open>U+00C9\<close> is compared as \<open>U+00E9\<close>, behind
  \<open>U+00E0\<close>.
\<close>

lemma list_directory_accents:
  "list_directory accent_fs ''/'' = [''z.txt'', CHR 0xE0 # ''.txt'', CHR 0xC9 # ''.txt'']
   \<and> sorted (map list_key (list_directory accent_fs ''/''))"
proof -
  have g: "get_node accent_fs ''/'' = Some (virtual_fs accent_fs)"
    by (simp add: get_node_parts parts_abs1)
  have "sorted (map list_key (list_directory accent_fs ''/''))"
    using list_directory_sorted[of accent_fs "''/''"] g by (simp add: accent_fs_def)
  then show ?thesis using ex4 by blast
qed

section \<open>Moving\<close>

lemma walk_del_child_self: "walk (del_child k m) (k # qs) = None"
  by (cases m) (auto simp: delete_conv')

lemma walk_del_child_other: "x \<noteq> k \<Longrightarrow> walk (del_child k m) (x # qs) = walk m (x # qs)"
  by (cases m) (auto simp: delete_conv')

lemma walk_update_del_other:
  "\<not> prefix (r @ [k]) q \<Longrightarrow> \<not> prefix q (r @ [k])
     \<Longrightarrow> walk (update_at r (del_child k) n) q = walk n q"
proof (induction r arbitrary: n q)
  case Nil
  then obtain x q' where q: "q = x # q'" and x: "x \<noteq> k"
    by (cases q) auto
  show ?case unfolding q using x by (cases n) (auto simp: delete_conv')
next
  case (Cons a r)
  then obtain x q' where q: "q = x # q'" by (cases q) auto
  show ?case
  proof (cases n)
    case (File co cr mo pe sz)
    then show ?thesis by simp
  next
    case (Directory cr mo pe ch)
    show ?thesis
    proof (cases "map_of ch a")
      case None
      then show ?thesis using Directory by simp
    next
      case (Some c)
      show ?thesis
      proof (cases "x = a")
        case True
        have "walk (update_at r (del_child k) c) q' = walk c q'"
          using Cons.prems q True by (intro Cons.IH) auto
        then show ?thesis using Directory Some q True by (simp add: update_conv')
      next
        case False
        then show ?thesis using Directory Some q by (simp add: update_conv')
      qed
    qed
  qed
qed

lemma current_path_move_item: "move_item fs now s d = (fs', b) \<Longrightarrow> current_path fs' = current_path fs"
  unfolding move_item_parts Let_def
  by (auto split: option.splits node.splits if_splits simp: update_node_def)

text \<open>
  What \<open>move_item\<close> does achieve: when neither path leads through the other (in
  particular they differ and neither is the root), a successful move leaves nothing at the
  source and the source's node, with a new \<open>modified\<close> stamp, at the destination.
\<close>

lemma move_item_correct:
  assumes mv: "move_item fs now s d = (fs', True)"
      and ns: "\<not> prefix (node_ref fs s) (node_ref fs d)"
      and nd: "\<not> prefix (node_ref fs d) (node_ref fs s)"
  shows "\<not> exists fs' s \<and> exists fs' d
         \<and> (\<exists>item. get_node fs s = Some item \<and> get_node fs' d = Some (set_modified now item))"
proof -
  let ?S = "norm_parts fs s" and ?D = "norm_parts fs d"
  let ?SP = "butlast ?S" and ?DP = "butlast ?D"
  let ?sn = "last ?S" and ?dn = "last ?D"
  have ns': "\<not> prefix ?S ?D" and nd': "\<not> prefix ?D ?S"
    using ns nd by (simp_all add: node_ref_parts)
  have Sne: "?S \<noteq> []" and Dne: "?D \<noteq> []" using ns' nd' by auto
  have S: "?SP @ [?sn] = ?S" and D: "?DP @ [?dn] = ?D" using Sne Dne by simp_all
  have iS: "item_name_of ?S = ?sn" and iD: "item_name_of ?D = ?dn"
    using Sne Dne by (simp_all add: item_name_of_def)
  obtain cr mo pe sch where sp: "walk (virtual_fs fs) ?SP = Some (Directory cr mo pe sch)"
    using mv unfolding move_item_parts by (auto split: option.splits node.splits)
  obtain cr' mo' pe' dch where dp: "walk (virtual_fs fs) ?DP = Some (Directory cr' mo' pe' dch)"
    using mv sp unfolding move_item_parts by (auto split: option.splits node.splits)
  obtain item where it: "map_of sch ?sn = Some item"
    using mv sp dp unfolding move_item_parts iS by (auto split: option.splits)
  have test: "take (Suc (length ?DP)) ?SP \<noteq> ?DP @ [?dn]"
  proof
    assume "take (Suc (length ?DP)) ?SP = ?DP @ [?dn]"
    then have "prefix ?D ?SP" unfolding D by (metis take_is_prefix)
    then have "prefix ?D (?SP @ [?sn])" by (rule prefix_prefix)
    then show False using nd' S by simp
  qed
  let ?r1 = "update_at ?DP (set_child ?dn (set_modified now item)) (virtual_fs fs)"
  let ?r2 = "update_at ?SP (del_child ?sn) ?r1"
  have fs': "virtual_fs fs' = ?r2"
    using mv sp dp it test unfolding move_item_parts iS iD by (auto simp: Let_def)
  have src: "walk (virtual_fs fs) ?S = Some item"
    using sp it walk_append[of "virtual_fs fs" ?SP "[?sn]"] S by simp
  have d1: "walk ?r1 (?DP @ [?dn]) = Some (set_modified now item)"
    using walk_update_at[OF dp, of "set_child ?dn (set_modified now item)" "[?dn]"]
    by (simp add: update_conv')
  have "walk ?r2 ?D = walk ?r1 ?D"
    using ns' nd' S by (intro walk_update_del_other) simp_all
  then have d2: "walk ?r2 ?D = Some (set_modified now item)" using d1 D by simp
  have s2: "walk ?r2 (?SP @ [?sn]) = None"
  proof (cases "walk ?r1 ?SP")
    case None
    then show ?thesis by (simp add: update_at_None walk_append)
  next
    case (Some m1)
    have "walk ?r2 (?SP @ [?sn]) = walk (del_child ?sn m1) [?sn]"
      by (rule walk_update_at[OF Some])
    then show ?thesis by (simp only: walk_del_child_self)
  qed
  have np: "norm_parts fs' = norm_parts fs"
    using norm_parts_cong[OF current_path_move_item[OF mv]] by auto
  show ?thesis
    using s2 d2 src S fs' by (simp add: exists_parts get_node_parts np)
qed

text \<open>
  Claim C3 at its failing inputs. On the seeded tree \<open>move_item('/tmp', '/tmp')\<close> returns
  \<open>True\<close> and \<open>/tmp\<close> is gone: the assignment into the destination slot is undone by the
  deletion of the same slot. \<open>move_item('/home', '/home/user/x')\<close> returns \<open>True\<close> and the
  whole of \<open>/home\<close> is gone, the destination with it.
\<close>

theorem move_item_onto_itself:
  "exists initial_fs ''/tmp''
   \<and> snd (move_item initial_fs ''2024-01-02 00:00:00'' ''/tmp'' ''/tmp'') = True
   \<and> exists (fst (move_item initial_fs ''2024-01-02 00:00:00'' ''/tmp'' ''/tmp'')) ''/tmp'' = False
   \<and> exists initial_fs ''/home''
   \<and> snd (move_item initial_fs ''2024-01-02 00:00:00'' ''/home'' ''/home/user/x'') = True
   \<and> exists (fst (move_item initial_fs ''2024-01-02 00:00:00'' ''/home'' ''/home/user/x''))
        ''/home/user/x'' = False
   \<and> exists (fst (move_item initial_fs ''2024-01-02 00:00:00'' ''/home'' ''/home/user/x''))
        ''/home/user/documents/readme.txt'' = False"
  by (simp add: parts_simps initial_fs_def seed_dir_def)

text \<open>
  After the move onto itself the tree is the seed without its \<open>tmp\<close> entry.
\<close>

theorem move_item_onto_itself_witness:
  "exists (fst (move_item initial_fs ''2024-01-02 00:00:00'' ''/tmp'' ''/tmp'')) ''/tmp'' = False
   \<and> virtual_fs (fst (move_item initial_fs ''2024-01-02 00:00:00'' ''/tmp'' ''/tmp''))
       = del_child ''tmp'' (virtual_fs initial_fs)"
proof -
  have "virtual_fs (fst (move_item initial_fs ''2024-01-02 00:00:00'' ''/tmp'' ''/tmp''))
       = del_child ''tmp'' (virtual_fs initial_fs)"
    by (simp add: parts_simps initial_fs_def seed_dir_def)
  then show ?thesis using move_item_onto_itself by simp
qed

text \<open>
  Its hypotheses hold when \<open>b.txt\<close> of the small tree is moved to \<open>/tmp/c\<close>.
\<close>

lemma move_item_correct_example:
  "\<not> prefix (node_ref tree_fs ''b.txt'') (node_ref tree_fs ''/tmp/c'')
   \<and> \<not> prefix (node_ref tree_fs ''/tmp/c'') (node_ref tree_fs ''b.txt'')
   \<and> snd (move_item tree_fs ''t1'' ''b.txt'' ''/tmp/c'') = True
   \<and> exists (fst (move_item tree_fs ''t1'' ''b.txt'' ''/tmp/c'')) ''b.txt'' = False
   \<and> get_node (fst (move_item tree_fs ''t1'' ''b.txt'' ''/tmp/c'')) ''/tmp/c''
       = Some (File ''bee'' ''t0'' ''t1'' ''-rw-r--r--'' 3)"
  by (simp add: parts_simps node_ref_parts norm_parts_def str_defs tree_fs_def)

section \<open>Contents and sizes after a write, a creation, a copy and a move\<close>








section \<open>The commands \<open>mkdir\<close> and \<open>touch\<close>\<close>

text \<open>
  Claim C2. For every argument list whose first name not starting with \<open>-\<close> is \<open>d\<close>,
  after any number of arguments that do start with \<open>-\<close>, \<open>mkdir\<close> does exactly what it
  does for \<open>d\<close> alone, whatever follows \<open>d\<close>: in virtual mode the file system is the result
  of \<open>create_directory\<close> for \<open>d\<close> and the message reports its success or failure; on the
  host there is one \<open>os.makedirs\<close> call, for \<open>d\<close>.
\<close>

theorem mkdir_first_only:
  assumes "\<forall>f\<in>set flags. startswith f ''-''" and "\<not> startswith d ''-''"
  shows "cmd_mkdir makedirs now ops (flags @ d # rest) = cmd_mkdir makedirs now ops [d]
     \<and> cmd_mkdir makedirs now (Virtual fs) (flags @ d # rest)
         = (Virtual (fst (create_directory fs now d)),
            if snd (create_directory fs now d)
            then GREEN @ ''Directory created: '' @ d @ RESET
            else RED @ ''Failed to create directory: '' @ d @ RESET)
     \<and> cmd_mkdir makedirs now (Real w) (flags @ d # rest)
         = (Real (snd (makedirs d w)),
            case fst (makedirs d w) of
              None \<Rightarrow> GREEN @ ''Directory created: '' @ d @ RESET
            | Some e \<Rightarrow> RED @ ''Error creating directory: '' @ e @ RESET)"
proof -
  have skip: "mkdir_loop makedirs now ops' (flags @ d # rest) = mkdir_loop makedirs now ops' (d # rest)" for ops' :: "'a backend"
    using assms(1) by (induction flags) auto
  have one: "mkdir_loop makedirs now ops' (d # rest) = mkdir_loop makedirs now ops' [d]" for ops' :: "'a backend"
    using assms(2) by (simp split: backend.splits prod.splits option.splits)
  have a: "cmd_mkdir makedirs now ops' (flags @ d # rest) = cmd_mkdir makedirs now ops' [d]" for ops' :: "'a backend"
    using skip[of ops'] one[of ops'] by (simp add: cmd_mkdir_def)
  have v: "cmd_mkdir makedirs now (Virtual fs) [d]
         = (Virtual (fst (create_directory fs now d)),
            if snd (create_directory fs now d)
            then GREEN @ ''Directory created: '' @ d @ RESET
            else RED @ ''Failed to create directory: '' @ d @ RESET)"
    using assms(2) by (simp add: cmd_mkdir_def split: prod.splits)
  have r: "cmd_mkdir makedirs now (Real w) [d]
         = (Real (snd (makedirs d w)),
            case fst (makedirs d w) of
              None \<Rightarrow> GREEN @ ''Directory created: '' @ d @ RESET
            | Some e \<Rightarrow> RED @ ''Error creating directory: '' @ e @ RESET)"
    using assms(2) by (simp add: cmd_mkdir_def split: prod.splits option.splits)
  show ?thesis using a[of ops] a[of "Virtual fs"] a[of "Real w"] v r by simp
qed

text \<open>
  Claim C10. In virtual mode, an argument of \<open>touch\<close> that exists and is a directory is
  passed over: the loop continues with the file system and the result lines it had, and
  \<open>touch\<close> of such a path alone returns the empty text and the unchanged file system.
\<close>

theorem touch_directory_noop:
  assumes "is_directory fs p"
  shows "touch_loop touch clock i (Virtual fs) (p # rest) results
           = touch_loop touch clock (Suc i) (Virtual fs) rest results
       \<and> cmd_touch touch clock (Virtual fs) [p] = (Virtual fs, [])"
proof -
  obtain cr mo pe ch where d: "get_node fs p = Some (Directory cr mo pe ch)"
    using assms by (auto simp: is_directory_def split: option.splits elim: is_dir_node.elims)
  have e: "exists fs p" using d by (simp add: exists_def)
  have a: "touch_loop touch clock j (Virtual fs) (p # rest') results'
           = touch_loop touch clock (Suc j) (Virtual fs) rest' results'" for j rest' results'
    using d e by simp
  show ?thesis using a[of i rest results] a[of 0 "[]" "[]"] by (simp add: cmd_touch_def)
qed

text \<open>
  \<open>mkdir -p a b\<close> in \<open>/docs\<close> of the small tree creates \<open>a\<close> and not \<open>b\<close>; on the recording
  host it calls \<open>os.makedirs\<close> once.
\<close>

theorem mkdir_first_only_witness:
  "startswith ''-p'' ''-'' \<and> \<not> startswith ''a'' ''-'' \<and> \<not> startswith ''b'' ''-''
   \<and> cmd_mkdir recording_os ''t1'' (Virtual tree_fs) [''-p'', ''a'', ''b'']
       = (Virtual (fst (create_directory tree_fs ''t1'' ''a'')),
          GREEN @ ''Directory created: a'' @ RESET)
   \<and> exists (fst (create_directory tree_fs ''t1'' ''a'')) ''/docs/a''
   \<and> exists (fst (create_directory tree_fs ''t1'' ''a'')) ''/docs/b'' = False
   \<and> cmd_mkdir recording_os ''t1'' (Real []) [''-p'', ''a'', ''b'']
       = (Real [''a''], GREEN @ ''Directory created: a'' @ RESET)"
proof -
  have f: "\<forall>f\<in>set [''-p'']. startswith f ''-''" by (simp add: startswith_def)
  have d: "\<not> startswith ''a'' ''-''" by (simp add: startswith_def)
  have b: "\<not> startswith ''b'' ''-''" by (simp add: startswith_def)
  have c: "create_directory tree_fs ''t1'' ''a'' =
    (tree_fs\<lparr>virtual_fs := Directory ''t0'' ''t0'' ''drwxr-xr-x''
       [(''docs'', Directory ''t0'' ''t0'' ''drwxr-xr-x''
           [(''b.txt'', File ''bee'' ''t0'' ''t0'' ''-rw-r--r--'' 3),
            (''A.txt'', File ''a'' ''t0'' ''t0'' ''-rw-r--r--'' 1),
            (''z'', Directory ''t0'' ''t0'' ''drwxr-xr-x'' []),
            (''a'', Directory ''t1'' ''t1'' ''drwxr-xr-x'' [])]),
        (''tmp'', Directory ''t0'' ''t0'' ''drwxrwxrwx'' [])]\<rparr>, True)"
    by (simp add: create_directory_parts parts_simps norm_parts_def str_defs tree_fs_def)
  have e: "exists (fst (create_directory tree_fs ''t1'' ''a'')) ''/docs/a''
         \<and> exists (fst (create_directory tree_fs ''t1'' ''a'')) ''/docs/b'' = False"
    unfolding c by (simp add: parts_simps tree_fs_def)
  note t = mkdir_first_only[OF f d, of recording_os "''t1''" "Virtual tree_fs" "[''b'']" tree_fs "[]"]
  have sn: "snd (create_directory tree_fs ''t1'' ''a'') = True" by (simp add: c)
  have v: "cmd_mkdir recording_os ''t1'' (Virtual tree_fs) ([''-p''] @ ''a'' # [''b''])
       = (Virtual (fst (create_directory tree_fs ''t1'' ''a'')),
          if snd (create_directory tree_fs ''t1'' ''a'')
          then GREEN @ ''Directory created: '' @ ''a'' @ RESET
          else RED @ ''Failed to create directory: '' @ ''a'' @ RESET)"
    using t by blast
  have v': "cmd_mkdir recording_os ''t1'' (Virtual tree_fs) [''-p'', ''a'', ''b'']
       = (Virtual (fst (create_directory tree_fs ''t1'' ''a'')),
          GREEN @ ''Directory created: a'' @ RESET)"
    using v by (simp add: sn)
  have r: "cmd_mkdir recording_os ''t1'' (Real []) ([''-p''] @ ''a'' # [''b''])
       = (Real (snd (recording_os ''a'' [])),
          case fst (recording_os ''a'' []) of
            None \<Rightarrow> GREEN @ ''Directory created: '' @ ''a'' @ RESET
          | Some e \<Rightarrow> RED @ ''Error creating directory: '' @ e @ RESET)"
    using t by blast
  have r': "cmd_mkdir recording_os ''t1'' (Real []) [''-p'', ''a'', ''b'']
       = (Real [''a''], GREEN @ ''Directory created: a'' @ RESET)"
    using r by (simp add: recording_os_def)
  have p: "startswith ''-p'' ''-''" by (simp add: startswith_def)
  show ?thesis using p d b v' e r' by blast
qed

text \<open>
  \<open>touch z\<close> and \<open>touch z b.txt\<close> in \<open>/docs\<close> of the small tree, where \<open>z\<close> is a directory.
\<close>

theorem touch_directory_noop_witness:
  "is_directory tree_fs ''z''
   \<and> cmd_touch recording_os (\<lambda>i. ''t1'') (Virtual tree_fs) [''z''] = (Virtual tree_fs, [])
   \<and> cmd_touch recording_os (\<lambda>i. ''t1'') (Virtual tree_fs) [''z'', ''b.txt'']
       = cmd_touch recording_os (\<lambda>i. ''t1'') (Virtual tree_fs) [''b.txt'']"
proof -
  have d: "is_directory tree_fs ''z''"
    by (simp add: parts_simps norm_parts_def str_defs tree_fs_def)
  note t = touch_directory_noop[OF d, of recording_os "\<lambda>i. ''t1''"]
  have "touch_loop recording_os (\<lambda>i. ''t1'') 0 (Virtual tree_fs) [''z'', ''b.txt''] []
      = touch_loop recording_os (\<lambda>i. ''t1'') (Suc 0) (Virtual tree_fs) [''b.txt''] []"
    using t[of 0 "[''b.txt'']" "[]"] by blast
  also have "\<dots> = touch_loop recording_os (\<lambda>i. ''t1'') 0 (Virtual tree_fs) [''b.txt''] []"
    by (simp add: parts_simps norm_parts_def str_defs tree_fs_def exists_parts node_ref_parts
        split: option.splits node.splits)
  finally have m: "cmd_touch recording_os (\<lambda>i. ''t1'') (Virtual tree_fs) [''z'', ''b.txt'']
       = cmd_touch recording_os (\<lambda>i. ''t1'') (Virtual tree_fs) [''b.txt'']"
    by (simp add: cmd_touch_def)
  show ?thesis using t[of 0 "[]" "[]"] d m by blast
qed

section \<open>The interpreter\<close>

lemma index_or_not_Inl:
  "i < length groups \<Longrightarrow> j < length groups \<Longrightarrow> index_or groups i j \<noteq> Inl e"
  by (simp add: index_or_def py_index_def bind_err_def)

lemma pick_name_not_Inl: "pick_name groups d \<noteq> Inl e"
proof (cases "length groups \<ge> 2")
  case True
  then have "Suc 0 < length groups" "0 < length groups" by auto
  then have "index_or groups (Suc 0) 0 \<noteq> Inl e" by (rule index_or_not_Inl)
  then show ?thesis using True by (simp add: pick_name_def)
next
  case False
  then show ?thesis by (cases groups) (simp_all add: pick_name_def py_index_def)
qed

lemma index_or_four:
  assumes "length groups \<ge> 4"
  shows "index_or groups (Suc 0) 0 \<noteq> Inl e" "index_or groups 3 2 \<noteq> Inl e"
proof -
  have l: "Suc 0 < length groups" "0 < length groups" "3 < length groups" "2 < length groups"
    using assms by auto
  show "index_or groups (Suc 0) 0 \<noteq> Inl e" by (rule index_or_not_Inl[OF l(1) l(2)])
  show "index_or groups 3 2 \<noteq> Inl e" by (rule index_or_not_Inl[OF l(3) l(4)])
qed

lemma if_not_Inl:
  "(c \<Longrightarrow> a \<noteq> Inl e) \<Longrightarrow> (\<not> c \<Longrightarrow> b \<noteq> Inl e) \<Longrightarrow> (if c then a else b) \<noteq> Inl e"
  by simp

lemma bind_pick_not_Inl: "bind_err (pick_name groups d) (\<lambda>a. Inr (f a)) \<noteq> Inl e"
  using pick_name_not_Inl[of groups d] by (cases "pick_name groups d") (auto simp: bind_err_def)

lemma bind_two_not_Inl:
  assumes "length groups \<ge> 4"
  shows "bind_err (index_or groups 1 0)
           (\<lambda>a. bind_err (index_or groups 3 2) (\<lambda>b. Inr (f a b))) \<noteq> Inl e"
proof -
  obtain a where a: "index_or groups 1 0 = Inr a"
    using index_or_four(1)[OF assms] by (cases "index_or groups 1 0") auto
  obtain b where b: "index_or groups 3 2 = Inr b"
    using index_or_four(2)[OF assms] by (cases "index_or groups 3 2") auto
  show ?thesis unfolding bind_err_def a b by simp
qed

lemma Inr_not_Inl: "Inr x \<noteq> Inl e"
  by simp

lemma process_match_not_Inl: "process_match command_type groups query \<noteq> Inl e"
  unfolding process_match_def
  by (rule if_not_Inl | rule bind_pick_not_Inl | (rule bind_two_not_Inl, assumption)
      | rule Inr_not_Inl)+

lemma scan_patterns_not_Inl: "scan_patterns command_type patterns query \<noteq> Inl e"
  by (induction patterns)
     (auto simp: process_match_not_Inl split: option.splits sum.splits prod.splits)

lemma scan_table_not_Inl: "scan_table table query \<noteq> Inl e"
  by (induction table)
     (auto simp: scan_patterns_not_Inl split: option.splits sum.splits)

lemma length_fallback: "length (fallback query) \<le> 1"
  by (simp add: fallback_def Let_def split: option.splits)

text \<open>
  Claim C8. For every query \<open>interpret\<close> returns, without raising, either no command or
  exactly one pair of a command and its arguments.
\<close>

theorem interpret_total:
  "\<exists>r. interpret_query query = Inr r
       \<and> (r = [] \<or> (\<exists>cmd as. r = [(cmd, as)]))"
proof (cases "strip_ws query = []")
  case True
  then show ?thesis by (simp add: interpret_query_def)
next
  case False
  show ?thesis
  proof (cases "scan_table command_patterns (strip_ws query)")
    case (Inl e)
    then show ?thesis using scan_table_not_Inl by blast
  next
    case (Inr found)
    show ?thesis
    proof (cases found)
      case None
      have "length (fallback (strip_ws query)) \<le> 1" by (rule length_fallback)
      then have "fallback (strip_ws query) = []
                 \<or> (\<exists>c. fallback (strip_ws query) = [c])"
        by (cases "fallback (strip_ws query)") auto
      then show ?thesis using False Inr None by (auto simp: interpret_query_def)
    next
      case (Some c)
      then show ?thesis using False Inr by (cases c) (simp add: interpret_query_def)
    qed
  qed
qed

text \<open>
  Claim C1 at its queries. \<open>go home\<close> and \<open>what is here\<close> give the commands the claim
  names. For \<open>create a folder called projects\<close> the first pattern matches with the optional
  \<open>(?:called|named)\<close> skipped at the blank before \<open>called\<close>, so \<open>(\w+)\<close> captures \<open>called\<close>:
  the command is \<open>mkdir called\<close>.
\<close>

theorem interpret_examples:
  "interpret_query ''create a folder called projects'' = Inr [(''mkdir'', Args [''called''])]
   \<and> interpret_query ''go home'' = Inr [(''cd'', Args [''~''])]
   \<and> interpret_query ''what is here'' = Inr [(''ls'', Args [])]"
  by code_simp

text \<open>
  The result for the first query is not the one the claim names.
\<close>

theorem interpret_examples_witness:
  "interpret_query ''create a folder called projects'' \<noteq> Inr [(''mkdir'', Args [''projects''])]"
  using interpret_examples by simp

text \<open>
  A query nothing matches, two that a pattern matches, and one left to the fall-back.
\<close>

theorem interpret_total_witness:
  "interpret_query ''xyzzy'' = Inr []
   \<and> interpret_query ''rename a.txt to b.txt'' = Inr [(''mv'', Args [''a.txt'', ''b.txt''])]
   \<and> interpret_query ''please make directory'' = Inr [(''ls'', Args [])]
   \<and> interpret_query ''make me a folder'' = Inr [(''mkdir'', Args [''me''])]"
proof -
  have a: "interpret_query ''xyzzy'' = Inr []" by code_simp
  have b: "interpret_query ''rename a.txt to b.txt'' = Inr [(''mv'', Args [''a.txt'', ''b.txt''])]"
    by code_simp
  have c: "interpret_query ''please make directory'' = Inr [(''ls'', Args [])]" by code_simp
  have d: "interpret_query ''make me a folder'' = Inr [(''mkdir'', Args [''me''])]" by code_simp
  show ?thesis using interpret_total[of "''xyzzy''"] a b c d by simp
qed

lemma canonical_if:
  "(c \<Longrightarrow> canonical_result a) \<Longrightarrow> (\<not> c \<Longrightarrow> canonical_result b)
     \<Longrightarrow> canonical_result (if c then a else b)"
  by simp

lemma canonical_bind:
  "(\<And>a. canonical_result (f a)) \<Longrightarrow> canonical_result (bind_err m f)"
  by (cases m) (simp_all add: bind_err_def canonical_result_def)

lemma canonical_Inr_Some:
  "cmd \<in> set canonical_commands \<Longrightarrow> canonical_result (Inr (Some cmd, as))"
  by (simp add: canonical_result_def)

lemma canonical_Inr_None: "canonical_result (Inr (None, as))"
  by (simp add: canonical_result_def)

lemma canonical_mem:
  "''mkdir'' \<in> set canonical_commands" "''touch'' \<in> set canonical_commands"
  "''ls'' \<in> set canonical_commands" "''cd'' \<in> set canonical_commands"
  "''pwd'' \<in> set canonical_commands" "''rm'' \<in> set canonical_commands"
  "''cp'' \<in> set canonical_commands" "''mv'' \<in> set canonical_commands"
  "''cat'' \<in> set canonical_commands" "''find'' \<in> set canonical_commands"
  "''sysinfo'' \<in> set canonical_commands" "''ps'' \<in> set canonical_commands"
  "''free'' \<in> set canonical_commands" "''df'' \<in> set canonical_commands"
  "''clear'' \<in> set canonical_commands" "''help'' \<in> set canonical_commands"
  by (simp_all add: canonical_commands_def)

lemma process_match_canonical: "canonical_result (process_match command_type groups query)"
  unfolding process_match_def
  by (rule canonical_if | rule canonical_bind | rule canonical_Inr_None
      | (rule canonical_Inr_Some, rule canonical_mem))+

lemma scan_patterns_canonical:
  "scan_patterns command_type patterns query = Inr (Some (cmd, as))
     \<Longrightarrow> cmd \<in> set canonical_commands"
proof (induction patterns)
  case Nil
  then show ?case by simp
next
  case (Cons p ps)
  show ?case
  proof (cases "search p query")
    case None
    then show ?thesis using Cons by simp
  next
    case (Some groups)
    note c = process_match_canonical[of command_type groups query]
    show ?thesis
      using Cons Some c
      by (auto simp: canonical_result_def split: sum.splits option.splits prod.splits if_splits)
  qed
qed

lemma scan_table_canonical:
  "scan_table table query = Inr (Some (cmd, as)) \<Longrightarrow> cmd \<in> set canonical_commands"
proof (induction table)
  case Nil
  then show ?case by simp
next
  case (Cons e table)
  obtain ct ps where e: "e = (ct, ps)" by (cases e)
  show ?case
    using Cons scan_patterns_canonical[of ct ps query cmd as] unfolding e
    by (auto split: sum.splits option.splits)
qed

lemma fallback_cases:
  "fallback query = [] \<or> (\<exists>w. fallback query = [(''mkdir'', Args [w])])
     \<or> (\<exists>w. fallback query = [(''touch'', Args [w])])"
  by (simp add: fallback_def Let_def split: option.split)

lemma fallback_canonical: "(cmd, as) \<in> set (fallback query) \<Longrightarrow> cmd \<in> set canonical_commands"
  using fallback_cases[of query] canonical_mem(1,2) by auto

lemma interpret_canonical:
  assumes "interpret_query query = Inr cs" "(cmd, as) \<in> set cs"
  shows "cmd \<in> set canonical_commands"
proof (cases "strip_ws query = []")
  case True
  then show ?thesis using assms by (simp add: interpret_query_def)
next
  case False
  show ?thesis
  proof (cases "scan_table command_patterns (strip_ws query)")
    case (Inl e)
    then show ?thesis using assms False by (simp add: interpret_query_def)
  next
    case (Inr found)
    show ?thesis
    proof (cases found)
      case None
      then show ?thesis
        using assms False Inr fallback_canonical[of cmd as "strip_ws query"]
        by (simp add: interpret_query_def)
    next
      case (Some c)
      then show ?thesis
        using assms False Inr scan_table_canonical[of command_patterns "strip_ws query" cmd as]
        by (auto simp: interpret_query_def)
    qed
  qed
qed

lemma canonical_canon_line:
  "cmd \<in> set canonical_commands \<Longrightarrow> canon_line (cmd @ rest)"
  by (auto simp: canonical_commands_def canon_line_def)

lemma canon_line_not_space: "canon_line s \<Longrightarrow> \<not> is_space (hd s)"
  by (auto simp: canon_line_def is_space_def)

lemma strip_ws_hd:
  assumes "s \<noteq> []" "\<not> is_space (hd s)"
  shows "strip_ws s \<noteq> [] \<and> hd (strip_ws s) = hd s"
proof -
  obtain x xs where s: "s = x # xs" using assms(1) by (cases s) auto
  have x: "\<not> is_space x" using assms(2) s by simp
  have "dropWhile is_space (rev xs @ [x]) = dropWhile is_space (rev xs) @ [x]
        \<or> dropWhile is_space (rev xs @ [x]) = [x]"
    using x by (auto simp: dropWhile_append)
  then show ?thesis unfolding strip_ws_def s using x by auto
qed

lemma map_of_commands_ai: "map_of commands cmd = Some Ai \<Longrightarrow> cmd = ''ai''"
  by (simp add: commands_def split: if_splits)

lemma parse_Inr:
  assumes "strip_ws line \<noteq> []" "parse sp line = Inr (cmd, as)"
  shows "sp (strip_ws line) = Inr (cmd # as) \<or> (sp (strip_ws line) = Inr [] \<and> cmd = [])"
  using assms by (auto simp: parse_def split: sum.splits list.splits)

text \<open>The handler call of execute, for a command other than ai, leaves the history alone.\<close>

lemma execute_not_ai:
  assumes "strip_ws line \<noteq> []" "parse (shlex_split env) line = Inr (cmd, as)" "cmd \<noteq> ''ai''"
  shows "command_history (snd (execute env depth line t)) = command_history t @ [line]"
proof (cases "map_of commands cmd")
  case None
  then show ?thesis using assms(1,2)
    by (subst execute.simps)
       (auto simp: Let_def run_subprocess_def split: prod.splits proc_result.splits)
next
  case (Some h)
  have "h \<noteq> Ai" using Some assms(3) map_of_commands_ai by blast
  then show ?thesis using assms(1,2) Some
    by (subst execute.simps, cases h) (auto simp: Let_def split: prod.splits sum.splits)
qed

lemma execute_blank: "strip_ws line = [] \<Longrightarrow> execute env depth line t = ([], t)"
  by (subst execute.simps) simp

lemma execute_parse_error:
  "strip_ws line \<noteq> [] \<Longrightarrow> parse (shlex_split env) line = Inl e
     \<Longrightarrow> execute env depth line t = (RED @ ''Parse error: '' @ e @ RESET, t)"
  by (subst execute.simps) simp

lemma execute_ai_unfold:
  assumes "strip_ws line \<noteq> []" "parse (shlex_split env) line = Inr (''ai'', as)"
  shows "command_history (snd (execute env depth line t))
     = command_history (snd
         (case depth of
            0 \<Rightarrow> (Inl ''maximum recursion depth exceeded'',
                  t\<lparr>command_history := command_history t @ [line]\<rparr>)
          | Suc d \<Rightarrow> cmd_ai env (execute env d) as
                  (t\<lparr>command_history := command_history t @ [line]\<rparr>)))"
proof -
  have m: "map_of commands ''ai'' = Some Ai" by (simp add: commands_def)
  show ?thesis using assms m
    by (subst execute.simps, cases depth) (auto simp: Let_def split: prod.splits sum.splits)
qed

lemma ai_loop_history:
  assumes "extends_history Q exec" "\<forall>(cmd, as)\<in>set cs. \<forall>rest. Q (cmd @ rest)"
  shows "\<exists>extra. command_history (snd (ai_loop env exec cs t outputs)) = command_history t @ extra
                 \<and> (\<forall>x\<in>set extra. Q x)"
  using assms(2)
proof (induction cs arbitrary: t outputs)
  case Nil
  then show ?case by simp
next
  case (Cons c cs)
  obtain cmd cmd_args where c: "c = (cmd, cmd_args)" by (cases c)
  have cmd: "\<forall>rest. Q (cmd @ rest)" using Cons.prems c by simp
  have rest: "\<forall>(cmd, as)\<in>set cs. \<forall>rest. Q (cmd @ rest)" using Cons.prems by simp
  show ?case
  proof (cases cmd_args)
    case (ArgsTuple a b)
    then show ?thesis using c by simp
  next
    case (Args as)
    define cmd_str where "cmd_str = (if as \<noteq> [] then cmd @ '' '' @ join '' '' as else cmd)"
    have cl: "Q cmd_str"
      using cmd[rule_format, of "'' '' @ join '' '' as"] cmd[rule_format, of "[]"]
      by (simp add: cmd_str_def)
    obtain result t' where e: "exec cmd_str t = (result, t')" by (cases "exec cmd_str t")
    obtain extra1 where e1: "command_history t' = command_history t @ extra1"
      and c1: "\<forall>x\<in>set extra1. Q x"
      using assms(1) cl e unfolding extends_history_def by (metis snd_conv)
    define outs where "outs = (let outputs = outputs @ [GREEN @ arrow env @ RESET @ '' Executing: '' @ BOLD @ cmd_str @ RESET]
        in if result \<noteq> [] then outputs @ [indent_result result] else outputs)"
    obtain extra2 where e2: "command_history (snd (ai_loop env exec cs t' outs)) = command_history t' @ extra2"
      and c2: "\<forall>x\<in>set extra2. Q x"
      using Cons.IH[OF rest, of t' outs] by blast
    have "ai_loop env exec (c # cs) t outputs = ai_loop env exec cs t' outs"
      unfolding c Args using e by (simp add: cmd_str_def outs_def Let_def)
    then have "command_history (snd (ai_loop env exec (c # cs) t outputs))
                 = command_history t @ (extra1 @ extra2)"
      using e1 e2 by simp
    moreover have "\<forall>x\<in>set (extra1 @ extra2). Q x" using c1 c2 by auto
    ultimately show ?thesis by blast
  qed
qed

lemma cmd_ai_history:
  assumes "extends_history Q exec" "\<And>cmd rest. cmd \<in> set canonical_commands \<Longrightarrow> Q (cmd @ rest)"
  shows "\<exists>extra. command_history (snd (cmd_ai env exec as t)) = command_history t @ extra
                 \<and> (\<forall>x\<in>set extra. Q x)"
proof (cases "as = []")
  case True
  then show ?thesis by (simp add: cmd_ai_def)
next
  case False
  show ?thesis
  proof (cases "interpret_query (join '' '' as)")
    case (Inl e)
    then show ?thesis using False by (cases e) (simp add: cmd_ai_def)
  next
    case (Inr cs)
    have can: "\<forall>(cmd, as)\<in>set cs. \<forall>rest. Q (cmd @ rest)"
      using interpret_canonical[OF Inr] assms(2) by auto
    show ?thesis
    proof (cases "cs = []")
      case True
      then show ?thesis using False Inr by (simp add: cmd_ai_def)
    next
      case ne: False
      then show ?thesis
        using False Inr ai_loop_history[OF assms(1) can] by (simp add: cmd_ai_def)
    qed
  qed
qed

lemma execute_extends_canon:
  assumes "ai_first_token env"
  shows "extends_history canon_line (execute env depth)"
  unfolding extends_history_def
proof (intro allI impI)
  fix s and t :: "'a terminal"
  assume cl: "canon_line s"
  have ne: "s \<noteq> []" and ns: "\<not> is_space (hd s)"
    using cl canon_line_not_space by (auto simp: canon_line_def)
  have st: "strip_ws s \<noteq> []" and hd: "hd (strip_ws s) = hd s"
    using strip_ws_hd[OF ne ns] by auto
  show "\<exists>extra. command_history (snd (execute env depth s t)) = command_history t @ extra
                 \<and> (\<forall>x\<in>set extra. canon_line x)"
  proof (cases "parse (shlex_split env) s")
    case (Inl e)
    then show ?thesis using execute_parse_error[OF st Inl] by simp
  next
    case (Inr p)
    obtain cmd as where p: "p = (cmd, as)" by (cases p)
    have "cmd \<noteq> ''ai''"
    proof
      assume ai: "cmd = ''ai''"
      then have "shlex_split env (strip_ws s) = Inr (''ai'' # as)"
        using parse_Inr[OF st, of "shlex_split env" cmd as] Inr p by auto
      moreover have "\<not> is_space (hd (strip_ws s))" using hd ns by simp
      ultimately have "hd (strip_ws s) \<in> {CHR ''a'', CHR 0x27, CHR 0x22, CHR 0x5C}"
        using assms st unfolding ai_first_token_def by blast
      then show False using cl hd by (auto simp: canon_line_def)
    qed
    then have "command_history (snd (execute env depth s t)) = command_history t @ [s]"
      using execute_not_ai[OF st] Inr p by blast
    then show ?thesis using cl by auto
  qed
qed

lemma ai_line_not_canon:
  assumes "ai_first_token env" "strip_ws line \<noteq> []"
    "parse (shlex_split env) line = Inr (''ai'', as)"
  shows "\<not> canon_line line"
proof
  assume cl: "canon_line line"
  have ne: "line \<noteq> []" and ns: "\<not> is_space (hd line)"
    using cl canon_line_not_space by (auto simp: canon_line_def)
  have hd: "hd (strip_ws line) = hd line" using strip_ws_hd[OF ne ns] by auto
  have "shlex_split env (strip_ws line) = Inr (''ai'' # as)"
    using parse_Inr[OF assms(2,3)] by auto
  moreover have "\<not> is_space (hd (strip_ws line))" using hd ns by simp
  ultimately have "hd (strip_ws line) \<in> {CHR ''a'', CHR 0x27, CHR 0x22, CHR 0x5C}"
    using assms(1,2) unfolding ai_first_token_def by blast
  then show False using cl hd by (auto simp: canon_line_def)
qed

lemma execute_extends_any: "extends_history (\<lambda>_. True) (execute env depth)"
proof (induction depth)
  case 0
  show ?case unfolding extends_history_def
  proof (intro allI impI)
    fix s and t :: "'a terminal"
    show "\<exists>extra. command_history (snd (execute env 0 s t)) = command_history t @ extra
                 \<and> (\<forall>x\<in>set extra. True)"
    proof (cases "strip_ws s = []")
      case True
      then show ?thesis by (simp add: execute_blank)
    next
      case False
      show ?thesis
      proof (cases "parse (shlex_split env) s")
        case (Inl e)
        then show ?thesis using execute_parse_error[OF False Inl] by simp
      next
        case (Inr p)
        obtain cmd as where p: "p = (cmd, as)" by (cases p)
        show ?thesis
        proof (cases "cmd = ''ai''")
          case True
          then show ?thesis using execute_ai_unfold[OF False, of env as 0 t] Inr p by simp
        next
          case na: False
          then show ?thesis using execute_not_ai[OF False, of env cmd as 0 t] Inr p by simp
        qed
      qed
    qed
  qed
next
  case (Suc d)
  show ?case unfolding extends_history_def
  proof (intro allI impI)
    fix s and t :: "'a terminal"
    show "\<exists>extra. command_history (snd (execute env (Suc d) s t)) = command_history t @ extra
                 \<and> (\<forall>x\<in>set extra. True)"
    proof (cases "strip_ws s = []")
      case True
      then show ?thesis by (simp add: execute_blank)
    next
      case False
      show ?thesis
      proof (cases "parse (shlex_split env) s")
        case (Inl e)
        then show ?thesis using execute_parse_error[OF False Inl] by simp
      next
        case (Inr p)
        obtain cmd as where p: "p = (cmd, as)" by (cases p)
        show ?thesis
        proof (cases "cmd = ''ai''")
          case True
          let ?t1 = "t\<lparr>command_history := command_history t @ [s]\<rparr>"
          obtain extra where "command_history (snd (cmd_ai env (execute env d) as ?t1))
                            = command_history ?t1 @ extra"
            using cmd_ai_history[OF Suc, where as = as and t = ?t1 and env = env] by auto
          then show ?thesis
            using execute_ai_unfold[OF False, of env as "Suc d" t] Inr p True by simp
        next
          case na: False
          then show ?thesis using execute_not_ai[OF False, of env cmd as "Suc d" t] Inr p by simp
        qed
      qed
    qed
  qed
qed

lemma execute_ai:
  assumes "strip_ws line \<noteq> []" "parse (shlex_split env) line = Inr (''ai'', as)"
  shows "\<exists>extra. command_history (snd (execute env depth line t)) = command_history t @ [line] @ extra
          \<and> (ai_first_token env \<longrightarrow> line \<notin> set extra)"
proof (cases depth)
  case 0
  then show ?thesis using execute_ai_unfold[OF assms, of 0 t] by simp
next
  case (Suc d)
  let ?t1 = "t\<lparr>command_history := command_history t @ [line]\<rparr>"
  have u: "command_history (snd (execute env depth line t))
             = command_history (snd (cmd_ai env (execute env d) as ?t1))"
    using execute_ai_unfold[OF assms, of depth t] Suc by simp
  show ?thesis
  proof (cases "ai_first_token env")
    case True
    obtain extra where e: "command_history (snd (cmd_ai env (execute env d) as ?t1))
                            = command_history ?t1 @ extra"
      and c: "\<forall>x\<in>set extra. canon_line x"
      using cmd_ai_history[OF execute_extends_canon[OF True, of d] canonical_canon_line,
          where as = as and t = ?t1 and env = env] by blast
    have "line \<notin> set extra" using c ai_line_not_canon[OF True assms] by blast
    then show ?thesis using u e by auto
  next
    case False
    obtain extra where "command_history (snd (cmd_ai env (execute env d) as ?t1))
                            = command_history ?t1 @ extra"
      using cmd_ai_history[OF execute_extends_any[of env d], where as = as and t = ?t1 and env = env]
      by auto
    then show ?thesis using u False by auto
  qed
qed

text \<open>
  Claim C7. On a line that is empty or white space, \<open>execute\<close> returns the empty text and
  changes nothing. On a line the parser rejects it returns the parse error text and changes
  nothing. On every other line the history afterwards is the old history, then the raw line,
  then what nested \<open>execute\<close> calls appended: nothing for every command but \<open>ai\<close>, whether
  the command is registered or not and whether its handler returns or raises; for \<open>ai\<close>, the
  interpreted command lines, none of which is the raw line (given that a first token \<open>ai\<close>
  comes from a line starting with \<open>a\<close>, a quote or a backslash).
\<close>

theorem execute_history:
  "(strip_ws line = [] \<longrightarrow> execute env depth line t = ([], t))
   \<and> (strip_ws line \<noteq> [] \<and> parse (shlex_split env) line = Inl e \<longrightarrow>
        execute env depth line t = (RED @ ''Parse error: '' @ e @ RESET, t))
   \<and> (strip_ws line \<noteq> [] \<and> parse (shlex_split env) line = Inr (cmd, as) \<longrightarrow>
        (\<exists>extra. command_history (snd (execute env depth line t))
                    = command_history t @ [line] @ extra
                 \<and> (cmd \<noteq> ''ai'' \<longrightarrow> extra = [])
                 \<and> (ai_first_token env \<longrightarrow> line \<notin> set extra)))"
proof -
  have c: "\<exists>extra. command_history (snd (execute env depth line t))
                    = command_history t @ [line] @ extra
                 \<and> (cmd \<noteq> ''ai'' \<longrightarrow> extra = [])
                 \<and> (ai_first_token env \<longrightarrow> line \<notin> set extra)"
    if ne: "strip_ws line \<noteq> []" and p: "parse (shlex_split env) line = Inr (cmd, as)"
  proof (cases "cmd = ''ai''")
    case True
    then show ?thesis using execute_ai[OF ne, of env as depth t] p by auto
  next
    case False
    then show ?thesis using execute_not_ai[OF ne p False, of depth t] by simp
  qed
  show ?thesis using execute_blank execute_parse_error c by blast
qed

lemma split_ws_hd:
  assumes "s \<noteq> []" "\<not> is_space (hd s)" "split_ws s = w # rest"
  shows "w \<noteq> [] \<and> hd w = hd s"
proof -
  obtain x xs where s: "s = x # xs" using assms(1) by (cases s) auto
  have x: "\<not> is_space x" using assms(2) s by simp
  obtain c cs where c: "chunks s = (x # c) # cs"
    unfolding s using x by (cases "chunks xs") auto
  then have "w = x # c" using assms(3) by (simp add: split_ws_def)
  then show ?thesis using s by simp
qed

lemma plain_env_ai_first_token: "ai_first_token plain_env"
  unfolding ai_first_token_def
proof (intro allI impI)
  fix s rest
  assume a: "s \<noteq> [] \<and> \<not> is_space (hd s) \<and> shlex_split plain_env s = Inr (''ai'' # rest)"
  then have "split_ws s = ''ai'' # rest"
    by (auto simp: plain_env_def plain_split_def split: if_splits)
  then have "hd ''ai'' = hd s" using split_ws_hd[of s "''ai''" rest] a by simp
  then show "hd s \<in> {CHR ''a'', CHR 0x27, CHR 0x22, CHR 0x5C}" by simp
qed

lemma ai_line_not_blank: "strip_ws ''ai go home'' \<noteq> []" by code_simp

lemma ai_line_parse: "parse (shlex_split plain_env) ''ai go home'' = Inr (''ai'', [''go'', ''home''])"
  by code_simp

lemma ai_line_history: "command_history (snd (execute plain_env 1 ''ai go home'' plain_terminal))
             = [''ls'', ''ai go home'', ''cd ~'']"
  by code_simp

lemma unknown_command_result: "execute plain_env 1 ''nosuchcmd x'' plain_terminal
   = (RED @ ''Command not found: nosuchcmd'' @ RESET,
      plain_terminal\<lparr>command_history := [''ls'', ''nosuchcmd x'']\<rparr>)"
  by code_simp

lemma raising_handler_result: "execute plain_env 1 ''cat x'' plain_terminal
   = (RED @ ''Error executing cat: disk error'' @ RESET,
      plain_terminal\<lparr>command_history := [''ls'', ''cat x'']\<rparr>)"
  by code_simp

text \<open>
  A line of blanks, a line of the white space characters \<open>U+00A0\<close> and \<open>U+0085\<close>, a
  line with an unclosed quote, \<open>ai go home\<close> (the history gains the raw line
  and the interpreted \<open>cd ~\<close>), an unknown command in virtual mode and a handler that raises.
\<close>

theorem execute_history_witness:
  "strip_ws ''   '' = []
   \<and> execute plain_env 1 ''   '' plain_terminal = ([], plain_terminal)
   \<and> strip_ws [CHR 0xA0, CHR 0x85] = []
   \<and> execute plain_env 1 [CHR 0xA0, CHR 0x85] plain_terminal = ([], plain_terminal)
   \<and> strip_ws ''echo 'a'' \<noteq> []
   \<and> parse (shlex_split plain_env) ''echo 'a'' = Inl ''Invalid command syntax: No closing quotation''
   \<and> command_history (snd (execute plain_env 1 ''echo 'a'' plain_terminal)) = [''ls'']
   \<and> strip_ws ''ai go home'' \<noteq> []
   \<and> parse (shlex_split plain_env) ''ai go home'' = Inr (''ai'', [''go'', ''home''])
   \<and> ai_first_token plain_env
   \<and> command_history (snd (execute plain_env 1 ''ai go home'' plain_terminal))
       = [''ls'', ''ai go home'', ''cd ~'']
   \<and> parse (shlex_split plain_env) ''nosuchcmd x'' = Inr (''nosuchcmd'', [''x''])
   \<and> execute plain_env 1 ''nosuchcmd x'' plain_terminal
       = (RED @ ''Command not found: nosuchcmd'' @ RESET,
          plain_terminal\<lparr>command_history := [''ls'', ''nosuchcmd x'']\<rparr>)
   \<and> execute plain_env 1 ''cat x'' plain_terminal
       = (RED @ ''Error executing cat: disk error'' @ RESET,
          plain_terminal\<lparr>command_history := [''ls'', ''cat x'']\<rparr>)"
proof -
  have b: "strip_ws ''   '' = []" by code_simp
  have b': "strip_ws [CHR 0xA0, CHR 0x85] = []" by code_simp
  have q1: "strip_ws ''echo 'a'' \<noteq> []" by code_simp
  have q2: "parse (shlex_split plain_env) ''echo 'a''
              = Inl ''Invalid command syntax: No closing quotation''" by code_simp
  have n: "parse (shlex_split plain_env) ''nosuchcmd x'' = Inr (''nosuchcmd'', [''x''])"
    by code_simp
  note t = execute_history[of _ plain_env 1 plain_terminal]
  have t1: "execute plain_env 1 ''   '' plain_terminal = ([], plain_terminal)"
    using t[of "''   ''"] b by blast
  have t1': "execute plain_env 1 [CHR 0xA0, CHR 0x85] plain_terminal = ([], plain_terminal)"
    using t[of "[CHR 0xA0, CHR 0x85]"] b' by blast
  have "execute plain_env 1 ''echo 'a'' plain_terminal
          = (RED @ ''Parse error: '' @ ''Invalid command syntax: No closing quotation'' @ RESET,
             plain_terminal)"
    using t[of "''echo 'a''" "''Invalid command syntax: No closing quotation''"] q1 q2 by blast
  then have t2: "command_history (snd (execute plain_env 1 ''echo 'a'' plain_terminal)) = [''ls'']"
    by (simp add: plain_terminal_def)
  show ?thesis
    using b t1 b' t1' q1 q2 t2 ai_line_not_blank ai_line_parse plain_env_ai_first_token ai_line_history n
      unknown_command_result raising_handler_result by blast
qed

end
